theory Spec2Isabelle
  imports Main
begin

section \<open>Building a syntax tree from the clang AST (BuildTree.cpp)\<close>

text \<open>
  A shallow embedding of \<^verbatim>\<open>clang/lib/Tooling/Syntax/BuildTree.cpp\<close>.
  Every \<^verbatim>\<open>assert\<close>, \<^verbatim>\<open>llvm_unreachable\<close> and
  \<^verbatim>\<open>report_fatal_error\<close> of the source is a branch returning \<open>Inl\<close>;
  a function that can abort returns \<open>error + 'a\<close>.
\<close>

subsection \<open>Errors\<close>

datatype error =
    AssertionFailed string
  | Unreachable string
  | FatalError string
  | UndefinedBehaviour string

definition bind :: "error + 'a \<Rightarrow> ('a \<Rightarrow> error + 'b) \<Rightarrow> error + 'b" where
  "bind m f = (case m of Inl e \<Rightarrow> Inl e | Inr x \<Rightarrow> f x)"

subsection \<open>Source locations, tokens\<close>

text \<open>A \<^verbatim>\<open>SourceLocation\<close> is its raw encoding; the encoding 0 is the invalid location.\<close>

type_synonym SourceLocation = nat

definition isValid :: "SourceLocation \<Rightarrow> bool" where
  "isValid L = (L \<noteq> 0)"

definition isInvalid :: "SourceLocation \<Rightarrow> bool" where
  "isInvalid L = (L = 0)"

text \<open>A \<^verbatim>\<open>SourceRange\<close> is the pair of its begin and end locations.\<close>

type_synonym SourceRange = "SourceLocation \<times> SourceLocation"

definition getBegin :: "SourceRange \<Rightarrow> SourceLocation" where
  "getBegin R = fst R"

definition getEnd :: "SourceRange \<Rightarrow> SourceLocation" where
  "getEnd R = snd R"

definition isValidRange :: "SourceRange \<Rightarrow> bool" where
  "isValidRange R = (isValid (getBegin R) \<and> isValid (getEnd R))"

definition isInvalidRange :: "SourceRange \<Rightarrow> bool" where
  "isInvalidRange R = (\<not> isValidRange R)"

datatype TokenKind =
    tok_eof | tok_semi | tok_coloncolon | tok_arrow | tok_period | tok_comma
  | tok_l_paren | tok_r_paren | tok_l_brace | tok_r_brace | tok_l_square | tok_r_square
  | tok_kw_template | tok_kw_extern | tok_kw_this | tok_kw_int | tok_kw_struct
  | tok_plusplus | tok_minusminus | tok_star | tok_equal
  | tok_identifier | tok_numeric_constant | tok_unknown

record Token =
  kind :: TokenKind
  location :: SourceLocation

text \<open>
  An \<^verbatim>\<open>ArrayRef<syntax::Token>\<close> into the expanded token array is the pair of the
  indices of its \<^verbatim>\<open>begin()\<close> and \<^verbatim>\<open>end()\<close> pointers.
\<close>

type_synonym TokenRange = "nat \<times> nat"

subsection \<open>Node kinds and roles\<close>

datatype NodeKind =
    Leaf | TranslationUnit
  | UnknownExpression | UnknownStatement | UnknownDeclaration
  | PrefixUnaryOperatorExpression | PostfixUnaryOperatorExpression
  | BinaryOperatorExpression | ParenExpression | MemberExpression | ThisExpression
  | IdExpression | UnqualifiedId | NestedNameSpecifier
  | GlobalNameSpecifier | DecltypeNameSpecifier | IdentifierNameSpecifier
  | SimpleTemplateNameSpecifier
  | IntegerLiteralExpression | CharacterLiteralExpression | FloatingLiteralExpression
  | StringLiteralExpression | BoolLiteralExpression | CxxNullPtrExpression
  | ExpressionStatement | CompoundStatement | DeclarationStatement | EmptyStatement
  | IfStatement | ReturnStatement
  | SimpleDeclaration | SimpleDeclarator | EmptyDeclaration | NamespaceDefinition
  | TemplateDeclaration | ExplicitTemplateInstantiation
  | ParenDeclarator | ArraySubscript | ParametersAndQualifiers | TrailingReturnType
  | MemberPointer

datatype NodeRole =
    Detached | Unknown
  | OpenParen | CloseParen | IntroducerKeyword | LiteralToken | ArrowToken
  | ExternKeyword | TemplateKeyword | BodyStatement
  | List_element | List_delimiter
  | OperatorExpression_operatorToken | UnaryOperatorExpression_operand
  | BinaryOperatorExpression_leftHandSide | BinaryOperatorExpression_rightHandSide
  | ExpressionStatement_expression | CompoundStatement_statement
  | SimpleDeclaration_declarator | TemplateDeclaration_declaration
  | IdExpression_id | IdExpression_qualifier | ParenExpression_subExpression
  | MemberExpression_object | MemberExpression_accessToken | MemberExpression_member

subsection \<open>The AST as the builder reads it\<close>

text \<open>
  The clang AST classes are not part of the file; an AST node is the record of the values
  its accessors return to the code. Pointer identity is a number.
\<close>

datatype ASTPtr = StmtPtr nat | DeclPtr nat

datatype OverloadedOperatorKind =
    OO_None
  | OO_New | OO_Delete | OO_Array_New | OO_Array_Delete
  | OO_Plus | OO_Minus | OO_Star | OO_Slash | OO_Percent | OO_Caret | OO_Amp | OO_Pipe
  | OO_Tilde | OO_Exclaim | OO_Equal | OO_Less | OO_Greater
  | OO_PlusEqual | OO_MinusEqual | OO_StarEqual | OO_SlashEqual | OO_PercentEqual
  | OO_CaretEqual | OO_AmpEqual | OO_PipeEqual
  | OO_LessLess | OO_GreaterGreater | OO_LessLessEqual | OO_GreaterGreaterEqual
  | OO_EqualEqual | OO_ExclaimEqual | OO_LessEqual | OO_GreaterEqual | OO_Spaceship
  | OO_AmpAmp | OO_PipePipe | OO_PlusPlus | OO_MinusMinus | OO_Comma
  | OO_ArrowStar | OO_Arrow | OO_Call | OO_Subscript | OO_Conditional | OO_Coawait
  | NUM_OVERLOADED_OPERATORS

datatype StmtClass =
    CompoundStmtClass | DeclStmtClass | NullStmtClass | ReturnStmtClass | OtherStmtClass
  | CXXOperatorCallExprClass | MemberExprClass | CXXThisExprClass | DeclRefExprClass
  | IntegerLiteralClass | ImplicitCastExprClass | OtherExprClass

text \<open>The classes derived from \<^verbatim>\<open>clang::Expr\<close>, for \<^verbatim>\<open>dyn_cast<Expr>\<close>.\<close>

definition isaExpr :: "StmtClass \<Rightarrow> bool" where
  "isaExpr C = (C \<in> {CXXOperatorCallExprClass, MemberExprClass, CXXThisExprClass,
     DeclRefExprClass, IntegerLiteralClass, ImplicitCastExprClass, OtherExprClass})"

text \<open>
  A statement: its identity, its class and its source range. An expression is a statement
  that also knows the identity of \<^verbatim>\<open>E->IgnoreImplicit()\<close>.
\<close>

record Stmt =
  stmtPtr :: nat
  getStmtClass :: StmtClass
  getSourceRange :: SourceRange

record Expr = Stmt +
  IgnoreImplicit :: nat

record CXXOperatorCallExpr = Expr +
  getOperator :: OverloadedOperatorKind
  arguments :: "Expr list"
  getOperatorLoc :: SourceLocation

text \<open>A \<^verbatim>\<open>NestedNameSpecifierLoc\<close> that has a qualifier; the null one is \<open>None\<close>.\<close>

record NestedNameSpecifierLoc =
  nnsPtr :: nat
  NNS_getBeginLoc :: SourceLocation

record MemberExpr = Expr +
  isImplicitAccess :: bool
  getQualifierLoc :: "NestedNameSpecifierLoc option"
  getTemplateKeywordLoc :: SourceLocation
  getMemberLoc :: SourceLocation
  getBase :: Expr
  Member_getOperatorLoc :: SourceLocation

record CXXThisExpr = Expr +
  isImplicit :: bool
  This_getLocation :: SourceLocation

definition getEndLoc :: "'a Stmt_scheme \<Rightarrow> SourceLocation" where
  "getEndLoc S = getEnd (getSourceRange S)"

definition getNumArgs :: "'a CXXOperatorCallExpr_scheme \<Rightarrow> nat" where
  "getNumArgs E = length (arguments E)"

subsection \<open>Type locations and declarations\<close>

datatype PointerKind =
    PointerTypeLoc | MemberPointerTypeLoc | BlockPointerTypeLoc | ReferenceTypeLoc
  | ObjCObjectPointerTypeLoc

text \<open>
  A \<^verbatim>\<open>TypeLoc\<close>, stored inside out as in clang. Every constructor starts with the
  end of \<^verbatim>\<open>getSourceRange()\<close>. A parenthesised type has the location of its
  \<^verbatim>\<open>(\<close> and its inner type; a pointer-like type has the begin of its local source
  range and its pointee; a function prototype knows whether it has a trailing return and
  its return type; any other type has its next type location, if any.
\<close>

datatype TypeLoc =
    ParenTypeLoc SourceLocation SourceLocation TypeLoc
  | PointerLikeTypeLoc PointerKind SourceLocation SourceLocation TypeLoc
  | FunctionProtoTypeLoc SourceLocation bool TypeLoc
  | OtherTypeLoc SourceLocation "TypeLoc option"

fun TypeLoc_getEnd :: "TypeLoc \<Rightarrow> SourceLocation" where
  "TypeLoc_getEnd (ParenTypeLoc e lp inner) = e"
| "TypeLoc_getEnd (PointerLikeTypeLoc k e lb pointee) = e"
| "TypeLoc_getEnd (FunctionProtoTypeLoc e tr ret) = e"
| "TypeLoc_getEnd (OtherTypeLoc e nxt) = e"

fun getNextTypeLoc :: "TypeLoc \<Rightarrow> TypeLoc option" where
  "getNextTypeLoc (ParenTypeLoc e lp inner) = Some inner"
| "getNextTypeLoc (PointerLikeTypeLoc k e lb pointee) = Some pointee"
| "getNextTypeLoc (FunctionProtoTypeLoc e tr ret) = Some ret"
| "getNextTypeLoc (OtherTypeLoc e nxt) = nxt"

datatype DeclKind =
    Namespace_Decl | Enum_Decl | Record_Decl | CXXRecord_Decl
  | Var_Decl | ParmVar_Decl | Function_Decl | CXXMethod_Decl | Field_Decl
  | Typedef_Decl | TypeAlias_Decl | Empty_Decl | StaticAssert_Decl | Using_Decl
  | Other_Decl

text \<open>The classes of the clang declaration hierarchy that the code casts to.\<close>

definition isaNamespaceDecl :: "DeclKind \<Rightarrow> bool" where
  "isaNamespaceDecl K = (K = Namespace_Decl)"

definition isaTagDecl :: "DeclKind \<Rightarrow> bool" where
  "isaTagDecl K = (K \<in> {Enum_Decl, Record_Decl, CXXRecord_Decl})"

definition isaVarDecl :: "DeclKind \<Rightarrow> bool" where
  "isaVarDecl K = (K \<in> {Var_Decl, ParmVar_Decl})"

definition isaDeclaratorDecl :: "DeclKind \<Rightarrow> bool" where
  "isaDeclaratorDecl K =
    (K \<in> {Var_Decl, ParmVar_Decl, Function_Decl, CXXMethod_Decl, Field_Decl})"

definition isaTypedefNameDecl :: "DeclKind \<Rightarrow> bool" where
  "isaTypedefNameDecl K = (K \<in> {Typedef_Decl, TypeAlias_Decl})"

text \<open>
  What the code reads of a declaration. \<open>TypeDecl_getBeginLoc\<close> is
  \<^verbatim>\<open>TypeDecl::getBeginLoc()\<close> of a tag or typedef-name declaration and
  \<open>DeclaratorDecl_getBeginLoc\<close> is \<^verbatim>\<open>DeclaratorDecl::getBeginLoc()\<close>;
  \<open>isAnonymous\<close> is \<^verbatim>\<open>DN.isIdentifier() && !DN.getAsIdentifierInfo()\<close>.
\<close>

record DeclInfo =
  declPtr :: nat
  getKind :: DeclKind
  Decl_getSourceRange :: SourceRange
  TypeDecl_getBeginLoc :: SourceLocation
  DeclaratorDecl_getBeginLoc :: SourceLocation
  getTypeLoc :: TypeLoc
  isAnonymous :: bool
  Decl_getQualifierLoc :: "NestedNameSpecifierLoc option"
  Decl_getLocation :: SourceLocation
  getInit :: "Expr option"
  isCXXForRangeDecl :: bool

datatype Decl = Decl (info: DeclInfo) (getNextDeclInContext: "Decl option")

definition Decl_getEndLoc :: "Decl \<Rightarrow> SourceLocation" where
  "Decl_getEndLoc D = getEnd (Decl_getSourceRange (info D))"

text \<open>The statement handed to \<^verbatim>\<open>TraverseStmt\<close>, by what it casts to.\<close>

datatype AnyStmt =
    IsDeclStmt Stmt "Decl list"
  | IsExpr Expr
  | IsOtherStmt Stmt

subsection \<open>Classification of overloaded operator calls\<close>

definition getOperatorNodeKind :: "'a CXXOperatorCallExpr_scheme \<Rightarrow> error + NodeKind" where
  "getOperatorNodeKind E =
    (case getOperator E of
       OO_EqualEqual \<Rightarrow> Inr BinaryOperatorExpression
     | OO_ExclaimEqual \<Rightarrow> Inr BinaryOperatorExpression
     | OO_Greater \<Rightarrow> Inr BinaryOperatorExpression
     | OO_GreaterEqual \<Rightarrow> Inr BinaryOperatorExpression
     | OO_Less \<Rightarrow> Inr BinaryOperatorExpression
     | OO_LessEqual \<Rightarrow> Inr BinaryOperatorExpression
     | OO_Spaceship \<Rightarrow> Inr BinaryOperatorExpression
     | OO_Equal \<Rightarrow> Inr BinaryOperatorExpression
     | OO_SlashEqual \<Rightarrow> Inr BinaryOperatorExpression
     | OO_PercentEqual \<Rightarrow> Inr BinaryOperatorExpression
     | OO_CaretEqual \<Rightarrow> Inr BinaryOperatorExpression
     | OO_PipeEqual \<Rightarrow> Inr BinaryOperatorExpression
     | OO_LessLessEqual \<Rightarrow> Inr BinaryOperatorExpression
     | OO_GreaterGreaterEqual \<Rightarrow> Inr BinaryOperatorExpression
     | OO_PlusEqual \<Rightarrow> Inr BinaryOperatorExpression
     | OO_MinusEqual \<Rightarrow> Inr BinaryOperatorExpression
     | OO_StarEqual \<Rightarrow> Inr BinaryOperatorExpression
     | OO_AmpEqual \<Rightarrow> Inr BinaryOperatorExpression
     | OO_Slash \<Rightarrow> Inr BinaryOperatorExpression
     | OO_Percent \<Rightarrow> Inr BinaryOperatorExpression
     | OO_Caret \<Rightarrow> Inr BinaryOperatorExpression
     | OO_Pipe \<Rightarrow> Inr BinaryOperatorExpression
     | OO_LessLess \<Rightarrow> Inr BinaryOperatorExpression
     | OO_GreaterGreater \<Rightarrow> Inr BinaryOperatorExpression
     | OO_AmpAmp \<Rightarrow> Inr BinaryOperatorExpression
     | OO_PipePipe \<Rightarrow> Inr BinaryOperatorExpression
     | OO_ArrowStar \<Rightarrow> Inr BinaryOperatorExpression
     | OO_Comma \<Rightarrow> Inr BinaryOperatorExpression
     | OO_Tilde \<Rightarrow> Inr PrefixUnaryOperatorExpression
     | OO_Exclaim \<Rightarrow> Inr PrefixUnaryOperatorExpression
     | OO_PlusPlus \<Rightarrow>
         (if getNumArgs E = 1 then Inr PrefixUnaryOperatorExpression
          else if getNumArgs E = 2 then Inr PostfixUnaryOperatorExpression
          else Inl (Unreachable ''Invalid number of arguments for operator''))
     | OO_MinusMinus \<Rightarrow>
         (if getNumArgs E = 1 then Inr PrefixUnaryOperatorExpression
          else if getNumArgs E = 2 then Inr PostfixUnaryOperatorExpression
          else Inl (Unreachable ''Invalid number of arguments for operator''))
     | OO_Plus \<Rightarrow>
         (if getNumArgs E = 1 then Inr PrefixUnaryOperatorExpression
          else if getNumArgs E = 2 then Inr BinaryOperatorExpression
          else Inl (Unreachable ''Invalid number of arguments for operator''))
     | OO_Minus \<Rightarrow>
         (if getNumArgs E = 1 then Inr PrefixUnaryOperatorExpression
          else if getNumArgs E = 2 then Inr BinaryOperatorExpression
          else Inl (Unreachable ''Invalid number of arguments for operator''))
     | OO_Star \<Rightarrow>
         (if getNumArgs E = 1 then Inr PrefixUnaryOperatorExpression
          else if getNumArgs E = 2 then Inr BinaryOperatorExpression
          else Inl (Unreachable ''Invalid number of arguments for operator''))
     | OO_Amp \<Rightarrow>
         (if getNumArgs E = 1 then Inr PrefixUnaryOperatorExpression
          else if getNumArgs E = 2 then Inr BinaryOperatorExpression
          else Inl (Unreachable ''Invalid number of arguments for operator''))
     | OO_New \<Rightarrow> Inr UnknownExpression
     | OO_Delete \<Rightarrow> Inr UnknownExpression
     | OO_Array_New \<Rightarrow> Inr UnknownExpression
     | OO_Array_Delete \<Rightarrow> Inr UnknownExpression
     | OO_Coawait \<Rightarrow> Inr UnknownExpression
     | OO_Call \<Rightarrow> Inr UnknownExpression
     | OO_Subscript \<Rightarrow> Inr UnknownExpression
     | OO_Arrow \<Rightarrow> Inr UnknownExpression
     | OO_Conditional \<Rightarrow> Inl (Unreachable ''Not an overloadable operator'')
     | NUM_OVERLOADED_OPERATORS \<Rightarrow> Inl (Unreachable ''Not an overloadable operator'')
     | OO_None \<Rightarrow> Inl (Unreachable ''Not an overloadable operator''))"

text \<open>
  The classification table of the specification, read row by row: the kind it prescribes
  for an operator and an operand count, and \<open>None\<close> where the table has no entry.
\<close>

definition spec_binary_only :: "OverloadedOperatorKind set" where
  "spec_binary_only =
    {OO_EqualEqual, OO_ExclaimEqual, OO_Less, OO_Greater, OO_LessEqual, OO_GreaterEqual,
     OO_Spaceship,
     OO_Equal, OO_PlusEqual, OO_MinusEqual, OO_StarEqual, OO_SlashEqual, OO_PercentEqual,
     OO_CaretEqual, OO_AmpEqual, OO_PipeEqual, OO_LessLessEqual, OO_GreaterGreaterEqual,
     OO_Slash, OO_Percent, OO_Caret, OO_Pipe, OO_LessLess, OO_GreaterGreater,
     OO_AmpAmp, OO_PipePipe, OO_ArrowStar, OO_Comma}"

definition spec_prefix_only :: "OverloadedOperatorKind set" where
  "spec_prefix_only = {OO_Tilde, OO_Exclaim}"

definition spec_increment :: "OverloadedOperatorKind set" where
  "spec_increment = {OO_PlusPlus, OO_MinusMinus}"

definition spec_unary_or_binary :: "OverloadedOperatorKind set" where
  "spec_unary_or_binary = {OO_Plus, OO_Minus, OO_Star, OO_Amp}"

definition spec_unsupported :: "OverloadedOperatorKind set" where
  "spec_unsupported =
    {OO_New, OO_Delete, OO_Array_New, OO_Array_Delete, OO_Coawait, OO_Call, OO_Subscript,
     OO_Arrow}"

definition spec_operator_table :: "OverloadedOperatorKind \<Rightarrow> nat \<Rightarrow> NodeKind option" where
  "spec_operator_table Op n =
    (if Op \<in> spec_binary_only then Some BinaryOperatorExpression
     else if Op \<in> spec_prefix_only then Some PrefixUnaryOperatorExpression
     else if Op \<in> spec_increment then
       (if n = 1 then Some PrefixUnaryOperatorExpression
        else if n = 2 then Some PostfixUnaryOperatorExpression else None)
     else if Op \<in> spec_unary_or_binary then
       (if n = 1 then Some PrefixUnaryOperatorExpression
        else if n = 2 then Some BinaryOperatorExpression else None)
     else if Op \<in> spec_unsupported then Some UnknownExpression
     else None)"

subsection \<open>Classification of nested name specifiers\<close>

datatype TypeClass =
    DecltypeType | TemplateSpecializationType | DependentTemplateSpecializationType
  | OtherType

text \<open>
  A \<^verbatim>\<open>NestedNameSpecifier\<close> by its \<^verbatim>\<open>SpecifierKind\<close>; the two type
  kinds carry the class of the stored type, and \<^verbatim>\<open>getAsType()\<close> is null for
  every other kind.
\<close>

datatype NestedNameSpecifier_ast =
    Identifier | Namespace | NamespaceAlias
  | TypeSpec TypeClass | TypeSpecWithTemplate TypeClass
  | Global | Super

definition getAsType :: "NestedNameSpecifier_ast \<Rightarrow> TypeClass option" where
  "getAsType NNS =
    (case NNS of TypeSpec T \<Rightarrow> Some T | TypeSpecWithTemplate T \<Rightarrow> Some T | _ \<Rightarrow> None)"

definition getNameSpecifierKind :: "NestedNameSpecifier_ast \<Rightarrow> error + NodeKind" where
  "getNameSpecifierKind NNS =
    (case NNS of
       Global \<Rightarrow> Inr GlobalNameSpecifier
     | Namespace \<Rightarrow> Inr IdentifierNameSpecifier
     | NamespaceAlias \<Rightarrow> Inr IdentifierNameSpecifier
     | Identifier \<Rightarrow> Inr IdentifierNameSpecifier
     | TypeSpecWithTemplate _ \<Rightarrow> Inr SimpleTemplateNameSpecifier
     | TypeSpec _ \<Rightarrow>
         (case getAsType NNS of
            None \<Rightarrow> Inl (AssertionFailed ''NNSType'')
          | Some NNSType \<Rightarrow>
              if NNSType = DecltypeType then Inr DecltypeNameSpecifier
              else if NNSType = TemplateSpecializationType
                      \<or> NNSType = DependentTemplateSpecializationType
                then Inr SimpleTemplateNameSpecifier
              else Inr IdentifierNameSpecifier)
     | Super \<Rightarrow> Inl (FatalError ''We don't yet support the __super specifier''))"

subsection \<open>Syntax nodes and the arena\<close>

text \<open>
  A syntax node lives in the arena and is named by its address. A leaf wraps the token
  whose index is in \<open>token\<close>; a tree lists the addresses of its children, first to last.
\<close>

record Node =
  Kind :: NodeKind
  Role :: NodeRole
  Original :: bool
  CanModify :: bool
  token :: "nat option"
  children :: "nat list"

text \<open>
  Modelled from the spec: the constructors of the node classes (Tree.cpp is not part of the
  file). A node starts with the role \<open>Detached\<close>, both flags false and no children.
\<close>

definition newNode :: "NodeKind \<Rightarrow> Node" where
  "newNode K = \<lparr>Kind = K, Role = Detached, Original = False, CanModify = False,
     token = None, children = []\<rparr>"

definition newLeaf :: "nat \<Rightarrow> Node" where
  "newLeaf T = (newNode Leaf)\<lparr>token := Some T\<rparr>"

text \<open>
  Modelled from the spec: \<^verbatim>\<open>Tree::prependChildLowLevel\<close> (Tree.cpp is not part
  of the file) makes the child the first child of the node.
\<close>

definition prependChildLowLevel :: "nat \<Rightarrow> nat \<Rightarrow> (nat \<Rightarrow> Node) \<Rightarrow> (nat \<Rightarrow> Node)" where
  "prependChildLowLevel N C st = st(N := (st N)\<lparr>children := C # children (st N)\<rparr>)"

text \<open>
  What the builder reads of the arena: the expanded tokens, whether
  \<^verbatim>\<open>spelledForExpanded\<close> has a value for a range of them, and the source manager's
  order of locations. The last two are parameters: the token buffer and the source manager
  are outside the file.
\<close>

record Arena =
  expandedTokens :: "Token list"
  spelledForExpanded :: "TokenRange \<Rightarrow> bool"
  isBeforeInTranslationUnit :: "SourceLocation \<Rightarrow> SourceLocation \<Rightarrow> bool"

text \<open>
  The state of a \<^verbatim>\<open>TreeBuilder\<close>. \<open>Store\<close> is the arena's memory and \<open>NextFree\<close>
  the next address its allocator hands out; \<open>Trees\<close> is \<^verbatim>\<open>Pending.Trees\<close>, a
  \<^verbatim>\<open>std::map\<close> from the index of a first token to a node, kept as the list of
  its entries in key order; \<open>Nodes\<close> and \<open>NNSNodes\<close> are the two maps of
  \<^verbatim>\<open>ASTToSyntaxMapping\<close>.
\<close>

record TreeBuilder =
  Arena :: Arena
  Store :: "nat \<Rightarrow> Node"
  NextFree :: nat
  LocationToToken :: "nat \<rightharpoonup> nat"
  Trees :: "(nat \<times> nat) list"
  DeclsWithoutSemicolons :: "nat set"
  Nodes :: "ASTPtr \<rightharpoonup> nat"
  NNSNodes :: "nat \<rightharpoonup> nat"

definition allocate :: "NodeKind \<Rightarrow> TreeBuilder \<Rightarrow> nat \<times> TreeBuilder" where
  "allocate K s =
    (NextFree s, s\<lparr>Store := (Store s)(NextFree s := newNode K), NextFree := Suc (NextFree s)\<rparr>)"

subsection \<open>The pending forest\<close>

text \<open>An iterator of \<open>Trees\<close> is a position in the list; \<^verbatim>\<open>end()\<close> is its length.\<close>

definition lower_bound :: "(nat \<times> nat) list \<Rightarrow> nat \<Rightarrow> nat" where
  "lower_bound T k = length (takeWhile (\<lambda>e. fst e < k) T)"

definition erase :: "nat \<Rightarrow> nat \<Rightarrow> (nat \<times> nat) list \<Rightarrow> (nat \<times> nat) list" where
  "erase B E T = take B T @ drop E T"

text \<open>\<^verbatim>\<open>std::map::insert\<close> keeps the old entry when the key is already there.\<close>

fun map_insert :: "nat \<times> nat \<Rightarrow> (nat \<times> nat) list \<Rightarrow> (nat \<times> nat) list" where
  "map_insert kv [] = [kv]"
| "map_insert kv (x # xs) =
    (if fst kv < fst x then kv # x # xs
     else if fst kv = fst x then x # xs
     else x # map_insert kv xs)"

definition Forest_init :: "Arena \<Rightarrow> error + ((nat \<Rightarrow> Node) \<times> nat \<times> (nat \<times> nat) list)" where
  "Forest_init A =
    (if expandedTokens A = [] then Inl (AssertionFailed ''!expandedTokens().empty()'')
     else if kind (last (expandedTokens A)) \<noteq> tok_eof
       then Inl (AssertionFailed ''expandedTokens().back().kind() == tok::eof'')
     else
       let N = length (expandedTokens A) - 1 in
       Inr ((\<lambda>n. if n < N
                  then (newLeaf n)\<lparr>Original := True, CanModify := spelledForExpanded A (n, Suc n)\<rparr>
                  else newNode Leaf),
            N,
            map (\<lambda>n. (n, n)) [0..<N]))"

definition setRole_store :: "nat \<Rightarrow> NodeRole \<Rightarrow> (nat \<Rightarrow> Node) \<Rightarrow> (nat \<Rightarrow> Node)" where
  "setRole_store N R st = st(N := (st N)\<lparr>Role := R\<rparr>)"

definition assignRole :: "TokenRange \<Rightarrow> NodeRole \<Rightarrow> TreeBuilder \<Rightarrow> error + TreeBuilder" where
  "assignRole Rng R s =
    (if fst Rng = snd Rng then Inl (AssertionFailed ''!Range.empty()'')
     else
       let It = lower_bound (Trees s) (fst Rng) in
       if It = length (Trees s) then Inl (AssertionFailed ''no node found'')
       else if fst (Trees s ! It) \<noteq> fst Rng
         then Inl (AssertionFailed ''no child with the specified range'')
       else if \<not> (Suc It = length (Trees s) \<or> fst (Trees s ! Suc It) = snd Rng)
         then Inl (AssertionFailed ''no child with the specified range'')
       else if Role (Store s (snd (Trees s ! It))) \<noteq> Detached
         then Inl (AssertionFailed ''re-assigning role for a child'')
       else Inr (s\<lparr>Store := setRole_store (snd (Trees s ! It)) R (Store s)\<rparr>))"

text \<open>
  The loop of \<^verbatim>\<open>foldChildren\<close>, from \<open>It\<close> down to \<open>BeginChildren\<close>. Stepping
  back from the first entry without meeting \<open>BeginChildren\<close> leaves the map.
\<close>

fun foldLoop :: "(nat \<times> nat) list \<Rightarrow> nat \<Rightarrow> nat \<Rightarrow> nat \<Rightarrow> (nat \<Rightarrow> Node)
    \<Rightarrow> error + (nat \<Rightarrow> Node)" where
  "foldLoop T N BeginChildren 0 st =
    (if 0 = BeginChildren then Inr st
     else Inl (UndefinedBehaviour ''std::prev(Trees.begin())''))"
| "foldLoop T N BeginChildren (Suc It) st =
    (if Suc It = BeginChildren then Inr st
     else
       let C = snd (T ! It);
           st1 = (if Role (st C) = Detached then setRole_store C Unknown st else st)
       in foldLoop T N BeginChildren It (prependChildLowLevel N C st1))"

definition foldChildren :: "TokenRange \<Rightarrow> nat \<Rightarrow> TreeBuilder \<Rightarrow> error + TreeBuilder" where
  "foldChildren Tokens N s =
    (if children (Store s N) \<noteq> [] then Inl (AssertionFailed ''node already has children'')
     else
       let FirstToken = fst Tokens;
           BeginChildren = lower_bound (Trees s) FirstToken in
       if \<not> (BeginChildren = length (Trees s) \<or> fst (Trees s ! BeginChildren) = FirstToken)
         then Inl (AssertionFailed ''fold crosses boundaries of existing subtrees'')
       else
         let EndChildren = lower_bound (Trees s) (snd Tokens) in
         if \<not> (EndChildren = length (Trees s) \<or> fst (Trees s ! EndChildren) = snd Tokens)
           then Inl (AssertionFailed ''fold crosses boundaries of existing subtrees'')
         else
           bind (foldLoop (Trees s) N BeginChildren EndChildren (Store s)) (\<lambda>st.
             Inr (s\<lparr>Store := st(N := (st N)\<lparr>Original := True,
                                            CanModify := spelledForExpanded (Arena s) Tokens\<rparr>),
                    Trees := map_insert (FirstToken, N)
                               (erase BeginChildren EndChildren (Trees s))\<rparr>)))"


subsection \<open>Tokens by location\<close>

text \<open>
  The constructor fills \<open>LocationToToken\<close> with \<^verbatim>\<open>DenseMap::insert\<close>, which keeps
  the first token stored for a location.
\<close>

fun insertLocations :: "Token list \<Rightarrow> nat \<Rightarrow> (nat \<rightharpoonup> nat) \<Rightarrow> (nat \<rightharpoonup> nat)" where
  "insertLocations [] i m = m"
| "insertLocations (T # Ts) i m =
    insertLocations Ts (Suc i) (if m (location T) = None then m(location T \<mapsto> i) else m)"

definition TreeBuilder_init :: "Arena \<Rightarrow> error + TreeBuilder" where
  "TreeBuilder_init A =
    bind (Forest_init A) (\<lambda>(st, nf, ts).
      Inr \<lparr>Arena = A, Store = st, NextFree = nf,
           LocationToToken = insertLocations (expandedTokens A) 0 Map.empty,
           Trees = ts, DeclsWithoutSemicolons = {}, Nodes = Map.empty,
           NNSNodes = Map.empty\<rparr>)"

definition findToken :: "TreeBuilder \<Rightarrow> SourceLocation \<Rightarrow> error + nat option" where
  "findToken s L =
    (if isInvalid L then Inr None
     else case LocationToToken s L of
            None \<Rightarrow> Inl (AssertionFailed ''It != LocationToToken.end()'')
          | Some T \<Rightarrow> Inr (Some T))"

text \<open>Reading the token at an index; an index outside the array is no token of it.\<close>

definition tokenAt :: "TreeBuilder \<Rightarrow> nat \<Rightarrow> error + Token" where
  "tokenAt s i =
    (if i < length (expandedTokens (Arena s)) then Inr (expandedTokens (Arena s) ! i)
     else Inl (UndefinedBehaviour ''read outside the expanded tokens''))"

definition ArrayRef_back :: "TreeBuilder \<Rightarrow> TokenRange \<Rightarrow> error + Token" where
  "ArrayRef_back s Tokens =
    (if fst Tokens = snd Tokens then Inl (AssertionFailed ''!empty()'')
     else if snd Tokens = 0 then Inl (UndefinedBehaviour ''read outside the expanded tokens'')
     else tokenAt s (snd Tokens - 1))"

subsection \<open>Range computers\<close>

definition getRange2 :: "TreeBuilder \<Rightarrow> SourceLocation \<Rightarrow> SourceLocation \<Rightarrow> error + TokenRange" where
  "getRange2 s First Last =
    (if \<not> isValid First then Inl (AssertionFailed ''First.isValid()'')
     else if \<not> isValid Last then Inl (AssertionFailed ''Last.isValid()'')
     else if \<not> (First = Last \<or> isBeforeInTranslationUnit (Arena s) First Last)
       then Inl (AssertionFailed ''First == Last || isBeforeInTranslationUnit(First, Last)'')
     else
       bind (findToken s First) (\<lambda>F.
       bind (findToken s Last) (\<lambda>L.
         case (F, L) of
           (Some f, Some l) \<Rightarrow> Inr (f, Suc l)
         | _ \<Rightarrow> Inl (UndefinedBehaviour ''null token''))))"

definition getRange :: "TreeBuilder \<Rightarrow> SourceRange \<Rightarrow> error + TokenRange" where
  "getRange s Rng =
    (if \<not> isValidRange Rng then Inl (AssertionFailed ''Range.isValid()'')
     else getRange2 s (getBegin Rng) (getEnd Rng))"

definition withTrailingSemicolon :: "TreeBuilder \<Rightarrow> TokenRange \<Rightarrow> error + TokenRange" where
  "withTrailingSemicolon s Tokens =
    (if fst Tokens = snd Tokens then Inl (AssertionFailed ''!Tokens.empty()'')
     else
       bind (ArrayRef_back s Tokens) (\<lambda>B.
         if kind B = tok_eof then Inl (AssertionFailed ''Tokens.back().kind() != tok::eof'')
         else if kind B \<noteq> tok_semi then
           bind (tokenAt s (snd Tokens)) (\<lambda>E.
             if kind E = tok_semi then Inr (fst Tokens, Suc (snd Tokens)) else Inr Tokens)
         else Inr Tokens))"

definition getExprRange :: "TreeBuilder \<Rightarrow> 'a Expr_scheme \<Rightarrow> error + TokenRange" where
  "getExprRange s E = getRange s (getSourceRange E)"

definition getStmtRange :: "TreeBuilder \<Rightarrow> 'a Stmt_scheme \<Rightarrow> error + TokenRange" where
  "getStmtRange s S =
    bind (getRange s (getSourceRange S)) (\<lambda>Tokens.
      if getStmtClass S = CompoundStmtClass then Inr Tokens
      else
        bind (ArrayRef_back s Tokens) (\<lambda>B.
          if kind B = tok_semi then Inr Tokens
          else withTrailingSemicolon s Tokens))"

definition maybeAppendSemicolon :: "TreeBuilder \<Rightarrow> TokenRange \<Rightarrow> Decl \<Rightarrow> error + TokenRange" where
  "maybeAppendSemicolon s Tokens D =
    (if isaNamespaceDecl (getKind (info D)) then Inr Tokens
     else if declPtr (info D) \<in> DeclsWithoutSemicolons s then Inr Tokens
     else withTrailingSemicolon s Tokens)"

definition getDeclarationRange :: "TreeBuilder \<Rightarrow> Decl \<Rightarrow> error + TokenRange" where
  "getDeclarationRange s D =
    bind (if isaTagDecl (getKind (info D))
          then getRange2 s (TypeDecl_getBeginLoc (info D)) (Decl_getEndLoc D)
          else getRange s (Decl_getSourceRange (info D)))
      (\<lambda>Tokens. maybeAppendSemicolon s Tokens D)"

definition noticeDeclWithoutSemicolon :: "Decl \<Rightarrow> TreeBuilder \<Rightarrow> TreeBuilder" where
  "noticeDeclWithoutSemicolon D s =
    s\<lparr>DeclsWithoutSemicolons := insert (declPtr (info D)) (DeclsWithoutSemicolons s)\<rparr>"

text \<open>
  \<^verbatim>\<open>BuildTreeVisitor::TraverseStmt\<close>. The traversal of the base class
  (RecursiveASTVisitor.h is not part of the file) is the parameter \<open>RAV\<close>: it takes the
  identity of the statement, null being \<open>None\<close>, and walks it, its children first.
\<close>

definition TraverseStmt ::
  "(nat option \<Rightarrow> TreeBuilder \<Rightarrow> error + bool \<times> TreeBuilder)
    \<Rightarrow> AnyStmt option \<Rightarrow> TreeBuilder \<Rightarrow> error + bool \<times> TreeBuilder" where
  "TraverseStmt RAV S s =
    (case S of
       Some (IsDeclStmt DS decls) \<Rightarrow>
         RAV (Some (stmtPtr DS)) (fold noticeDeclWithoutSemicolon decls s)
     | Some (IsExpr E) \<Rightarrow> RAV (Some (IgnoreImplicit E)) s
     | Some (IsOtherStmt S') \<Rightarrow> RAV (Some (stmtPtr S')) s
     | None \<Rightarrow> RAV None s)"

subsection \<open>Example inputs\<close>

text \<open>The tokens of \<^verbatim>\<open>x;\<close> and the expression \<^verbatim>\<open>x\<close>.\<close>

definition expr_stmt_arena :: Arena where
  "expr_stmt_arena =
    \<lparr>expandedTokens = [\<lparr>kind = tok_identifier, location = 1\<rparr>,
                       \<lparr>kind = tok_semi, location = 2\<rparr>,
                       \<lparr>kind = tok_eof, location = 3\<rparr>],
     spelledForExpanded = (\<lambda>_. True),
     isBeforeInTranslationUnit = (\<lambda>a b. a < b)\<rparr>"

definition expr_x :: Expr where
  "expr_x = \<lparr>stmtPtr = 1, getStmtClass = DeclRefExprClass, getSourceRange = (1, 1),
             IgnoreImplicit = 1\<rparr>"

text \<open>The tokens of \<^verbatim>\<open>;;\<close>, two empty declarations, and the first of them.\<close>

definition two_semis_arena :: Arena where
  "two_semis_arena =
    \<lparr>expandedTokens = [\<lparr>kind = tok_semi, location = 1\<rparr>,
                       \<lparr>kind = tok_semi, location = 2\<rparr>,
                       \<lparr>kind = tok_eof, location = 3\<rparr>],
     spelledForExpanded = (\<lambda>_. True),
     isBeforeInTranslationUnit = (\<lambda>a b. a < b)\<rparr>"

definition plain_info :: DeclInfo where
  "plain_info =
    \<lparr>declPtr = 0, getKind = Other_Decl, Decl_getSourceRange = (0, 0),
     TypeDecl_getBeginLoc = 0, DeclaratorDecl_getBeginLoc = 0,
     getTypeLoc = OtherTypeLoc 0 None, isAnonymous = False,
     Decl_getQualifierLoc = None, Decl_getLocation = 0, getInit = None,
     isCXXForRangeDecl = False\<rparr>"

definition first_empty_decl :: Decl where
  "first_empty_decl =
    Decl (plain_info\<lparr>declPtr := 1, getKind := Empty_Decl, Decl_getSourceRange := (1, 1)\<rparr>)
      None"

text \<open>A variable declared by the first token of \<^verbatim>\<open>x;\<close>, and its statement.\<close>

definition var_x :: Decl where
  "var_x =
    Decl (plain_info\<lparr>declPtr := 1, getKind := Var_Decl, Decl_getSourceRange := (1, 1),
            getTypeLoc := OtherTypeLoc 1 None, Decl_getLocation := 1\<rparr>)
      None"

definition decl_stmt_x :: Stmt where
  "decl_stmt_x = \<lparr>stmtPtr = 7, getStmtClass = DeclStmtClass, getSourceRange = (1, 2)\<rparr>"

text \<open>The call \<^verbatim>\<open>a++\<close> of an overloaded operator, with its placeholder operand.\<close>

definition postfix_increment_call :: "CXXOperatorCallExpr" where
  "postfix_increment_call =
    \<lparr>stmtPtr = 3, getStmtClass = CXXOperatorCallExprClass, getSourceRange = (10, 11),
     IgnoreImplicit = 3, getOperator = OO_PlusPlus,
     arguments = [\<lparr>stmtPtr = 1, getStmtClass = DeclRefExprClass, getSourceRange = (10, 10),
                    IgnoreImplicit = 1\<rparr>,
                  \<lparr>stmtPtr = 2, getStmtClass = IntegerLiteralClass, getSourceRange = (0, 0),
                    IgnoreImplicit = 2\<rparr>],
     getOperatorLoc = 11\<rparr>"

subsection \<open>The loop of foldChildren in closed form\<close>

text \<open>One turn of the loop for the child \<open>C\<close>, and the store after the loop has taken the
  children \<open>xs\<close> in this order.\<close>

definition foldStep :: "nat \<Rightarrow> nat \<Rightarrow> (nat \<Rightarrow> Node) \<Rightarrow> (nat \<Rightarrow> Node)" where
  "foldStep N C st =
    prependChildLowLevel N C (if Role (st C) = Detached then setRole_store C Unknown st else st)"

definition foldStore :: "nat \<Rightarrow> nat list \<Rightarrow> (nat \<Rightarrow> Node) \<Rightarrow> (nat \<Rightarrow> Node)" where
  "foldStore N xs st =
    (\<lambda>n. (st n)\<lparr>Role := (if n \<in> set xs \<and> Role (st n) = Detached then Unknown else Role (st n)),
                 children := (if n = N then rev xs @ children (st n) else children (st n))\<rparr>)"

text \<open>The builder of \<^verbatim>\<open>x;\<close> after a node for an expression statement is allocated.\<close>

definition expr_stmt_pending :: TreeBuilder where
  "expr_stmt_pending =
    snd (allocate ExpressionStatement (projr (TreeBuilder_init expr_stmt_arena)))"

subsection \<open>Marking children and folding nodes\<close>

definition setRole :: "nat \<Rightarrow> NodeRole \<Rightarrow> TreeBuilder \<Rightarrow> error + TreeBuilder" where
  "setRole N R s =
    (if Role (Store s N) \<noteq> Detached
       then Inl (AssertionFailed ''N->role() == NodeRole::Detached'')
     else Inr (s\<lparr>Store := setRole_store N R (Store s)\<rparr>))"

definition Mapping_add :: "ASTPtr \<Rightarrow> nat \<Rightarrow> TreeBuilder \<Rightarrow> error + TreeBuilder" where
  "Mapping_add From To s =
    (if Nodes s From \<noteq> None then Inl (AssertionFailed ''mapping added twice'')
     else Inr (s\<lparr>Nodes := (Nodes s)(From \<mapsto> To)\<rparr>))"


text \<open>\<^verbatim>\<open>foldNode\<close> for a statement or declaration; a null \<open>From\<close> is \<open>None\<close>.\<close>

definition foldNode ::
  "TokenRange \<Rightarrow> nat \<Rightarrow> ASTPtr option \<Rightarrow> TreeBuilder \<Rightarrow> error + TreeBuilder" where
  "foldNode Rng New From s =
    bind (foldChildren Rng New s) (\<lambda>s1.
      case From of None \<Rightarrow> Inr s1 | Some P \<Rightarrow> Mapping_add P New s1)"


text \<open>\<^verbatim>\<open>markChildToken\<close> for a location, and for a token pointer, null being \<open>None\<close>.\<close>

definition markChildToken :: "SourceLocation \<Rightarrow> NodeRole \<Rightarrow> TreeBuilder \<Rightarrow> error + TreeBuilder" where
  "markChildToken Loc R s =
    (if isInvalid Loc then Inr s
     else bind (findToken s Loc) (\<lambda>T.
            case T of
              None \<Rightarrow> Inl (UndefinedBehaviour ''null token'')
            | Some t \<Rightarrow> assignRole (t, Suc t) R s))"


text \<open>\<^verbatim>\<open>markChild\<close> for a syntax node, for an AST node and for a name specifier.\<close>

definition markChild :: "nat \<Rightarrow> NodeRole \<Rightarrow> TreeBuilder \<Rightarrow> error + TreeBuilder" where
  "markChild N R s = setRole N R s"


definition markChild_NNS ::
  "NestedNameSpecifierLoc \<Rightarrow> NodeRole \<Rightarrow> TreeBuilder \<Rightarrow> error + TreeBuilder" where
  "markChild_NNS NNSLoc R s =
    (case NNSNodes s (nnsPtr NNSLoc) of
       None \<Rightarrow> Inl (AssertionFailed ''SN != nullptr'')
     | Some SN \<Rightarrow> setRole SN R s)"

definition markExprChild ::
  "'a Expr_scheme option \<Rightarrow> NodeRole \<Rightarrow> TreeBuilder \<Rightarrow> error + TreeBuilder" where
  "markExprChild Child R s =
    (case Child of
       None \<Rightarrow> Inr s
     | Some C \<Rightarrow>
        (case Nodes s (StmtPtr (IgnoreImplicit C)) of
           None \<Rightarrow> Inl (AssertionFailed ''ChildNode != nullptr'')
         | Some ChildNode \<Rightarrow> setRole ChildNode R s))"


subsection \<open>Expression handlers\<close>

definition buildIdExpression ::
  "NestedNameSpecifierLoc option \<Rightarrow> SourceLocation \<Rightarrow> SourceRange \<Rightarrow> ASTPtr option
    \<Rightarrow> TreeBuilder \<Rightarrow> error + nat \<times> TreeBuilder" where
  "buildIdExpression QualifierLoc TemplateKeywordLoc UnqualifiedIdLoc From s =
    bind (case QualifierLoc of
            None \<Rightarrow> Inr s
          | Some Q \<Rightarrow>
              bind (markChild_NNS Q IdExpression_qualifier s) (\<lambda>s'.
                if isValid TemplateKeywordLoc
                then markChildToken TemplateKeywordLoc TemplateKeyword s'
                else Inr s')) (\<lambda>s1.
      let (TheUnqualifiedId, s2) = allocate UnqualifiedId s1 in
      bind (getRange s2 UnqualifiedIdLoc) (\<lambda>Rng.
      bind (foldNode Rng TheUnqualifiedId None s2) (\<lambda>s3.
      bind (markChild TheUnqualifiedId IdExpression_id s3) (\<lambda>s4.
        let IdExpressionBeginLoc =
              (case QualifierLoc of
                 Some Q \<Rightarrow> NNS_getBeginLoc Q
               | None \<Rightarrow> getBegin UnqualifiedIdLoc);
            (TheIdExpression, s5) = allocate IdExpression s4 in
        bind (getRange2 s5 IdExpressionBeginLoc (getEnd UnqualifiedIdLoc)) (\<lambda>Rng2.
        bind (foldNode Rng2 TheIdExpression From s5) (\<lambda>s6.
          Inr (TheIdExpression, s6)))))))"

definition WalkUpFromMemberExpr ::
  "MemberExpr \<Rightarrow> TreeBuilder \<Rightarrow> error + bool \<times> TreeBuilder" where
  "WalkUpFromMemberExpr S s =
    (if isImplicitAccess S then
       bind (buildIdExpression (getQualifierLoc S) (getTemplateKeywordLoc S)
               (getMemberLoc S, getEndLoc S) (Some (StmtPtr (stmtPtr S))) s)
         (\<lambda>(TheIdExpression, s'). Inr (True, s'))
     else
       bind (buildIdExpression (getQualifierLoc S) (getTemplateKeywordLoc S)
               (getMemberLoc S, getEndLoc S) None s) (\<lambda>(TheIdExpression, s1).
       bind (markChild TheIdExpression MemberExpression_member s1) (\<lambda>s2.
       bind (markExprChild (Some (getBase S)) MemberExpression_object s2) (\<lambda>s3.
       bind (markChildToken (Member_getOperatorLoc S) MemberExpression_accessToken s3) (\<lambda>s4.
         let (New, s5) = allocate MemberExpression s4 in
         bind (getExprRange s5 S) (\<lambda>Rng.
         bind (foldNode Rng New (Some (StmtPtr (stmtPtr S))) s5) (\<lambda>s6.
           Inr (True, s6))))))))"

definition WalkUpFromCXXThisExpr ::
  "CXXThisExpr \<Rightarrow> TreeBuilder \<Rightarrow> error + bool \<times> TreeBuilder" where
  "WalkUpFromCXXThisExpr S s =
    (if \<not> isImplicit S then
       bind (markChildToken (This_getLocation S) IntroducerKeyword s) (\<lambda>s1.
         let (New, s2) = allocate ThisExpression s1 in
         bind (getExprRange s2 S) (\<lambda>Rng.
         bind (foldNode Rng New (Some (StmtPtr (stmtPtr S))) s2) (\<lambda>s3.
           Inr (True, s3))))
     else Inr (True, s))"

definition isImplicitExpr :: "'a Expr_scheme \<Rightarrow> bool" where
  "isImplicitExpr E = (IgnoreImplicit E \<noteq> stmtPtr E)"

definition WalkUpFromExpr :: "'a Expr_scheme \<Rightarrow> TreeBuilder \<Rightarrow> error + bool \<times> TreeBuilder" where
  "WalkUpFromExpr E s =
    (if isImplicitExpr E
       then Inl (AssertionFailed ''!isImplicitExpr(E) && should be handled by TraverseStmt'')
     else
       let (New, s1) = allocate UnknownExpression s in
       bind (getExprRange s1 E) (\<lambda>Rng.
       bind (foldNode Rng New (Some (StmtPtr (stmtPtr E))) s1) (\<lambda>s2.
         Inr (True, s2))))"

subsection \<open>Overloaded operator calls\<close>

text \<open>\<^verbatim>\<open>getArg\<close> asserts that the argument exists.\<close>

definition getArg :: "'a CXXOperatorCallExpr_scheme \<Rightarrow> nat \<Rightarrow> error + Expr" where
  "getArg E i =
    (if i < getNumArgs E then Inr (arguments E ! i)
     else Inl (AssertionFailed ''Arg < getNumArgs() && Arg index out of range!''))"

text \<open>
  Modelled from the spec: \<^verbatim>\<open>RecursiveASTVisitor::WalkUpFromCXXOperatorCallExpr\<close>
  (RecursiveASTVisitor.h is not part of the file) walks up the class hierarchy to the
  handler of expressions, the fallback that folds an unknown expression.
\<close>

definition RAV_WalkUpFromCXXOperatorCallExpr ::
  "CXXOperatorCallExpr \<Rightarrow> TreeBuilder \<Rightarrow> error + bool \<times> TreeBuilder" where
  "RAV_WalkUpFromCXXOperatorCallExpr S s = WalkUpFromExpr S s"

definition WalkUpFromCXXOperatorCallExpr ::
  "CXXOperatorCallExpr \<Rightarrow> TreeBuilder \<Rightarrow> error + bool \<times> TreeBuilder" where
  "WalkUpFromCXXOperatorCallExpr S s =
    bind (getOperatorNodeKind S) (\<lambda>K.
      if K = BinaryOperatorExpression then
        bind (getArg S 0) (\<lambda>A0.
        bind (markExprChild (Some A0) BinaryOperatorExpression_leftHandSide s) (\<lambda>s1.
        bind (markChildToken (getOperatorLoc S) OperatorExpression_operatorToken s1) (\<lambda>s2.
        bind (getArg S 1) (\<lambda>A1.
        bind (markExprChild (Some A1) BinaryOperatorExpression_rightHandSide s2) (\<lambda>s3.
          let (New, s4) = allocate BinaryOperatorExpression s3 in
          bind (getExprRange s4 S) (\<lambda>Rng.
          bind (foldNode Rng New (Some (StmtPtr (stmtPtr S))) s4) (\<lambda>s5.
            Inr (True, s5))))))))
      else if K = PrefixUnaryOperatorExpression then
        bind (markChildToken (getOperatorLoc S) OperatorExpression_operatorToken s) (\<lambda>s1.
        bind (getArg S 0) (\<lambda>A0.
        bind (markExprChild (Some A0) UnaryOperatorExpression_operand s1) (\<lambda>s2.
          let (New, s3) = allocate PrefixUnaryOperatorExpression s2 in
          bind (getExprRange s3 S) (\<lambda>Rng.
          bind (foldNode Rng New (Some (StmtPtr (stmtPtr S))) s3) (\<lambda>s4.
            Inr (True, s4))))))
      else if K = PostfixUnaryOperatorExpression then
        bind (markChildToken (getOperatorLoc S) OperatorExpression_operatorToken s) (\<lambda>s1.
        bind (getArg S 0) (\<lambda>A0.
        bind (markExprChild (Some A0) UnaryOperatorExpression_operand s1) (\<lambda>s2.
          let (New, s3) = allocate PostfixUnaryOperatorExpression s2 in
          bind (getExprRange s3 S) (\<lambda>Rng.
          bind (foldNode Rng New (Some (StmtPtr (stmtPtr S))) s3) (\<lambda>s4.
            Inr (True, s4))))))
      else if K = UnknownExpression then RAV_WalkUpFromCXXOperatorCallExpr S s
      else Inl (Unreachable ''getOperatorNodeKind() does not return this value''))"

text \<open>
  The loop of \<^verbatim>\<open>TraverseCXXOperatorCallExpr\<close> over the arguments still to visit. An
  argument with an invalid source range is passed over, after the assertion that the call
  is a postfix one; \<open>False\<close> from a traversal ends the loop and the function.
\<close>

fun traverseArguments ::
  "(nat option \<Rightarrow> TreeBuilder \<Rightarrow> error + bool \<times> TreeBuilder)
    \<Rightarrow> CXXOperatorCallExpr \<Rightarrow> Expr list \<Rightarrow> TreeBuilder \<Rightarrow> error + bool \<times> TreeBuilder" where
  "traverseArguments RAV S [] s = Inr (True, s)"
| "traverseArguments RAV S (child # rest) s =
    (if isInvalidRange (getSourceRange child) then
       bind (getOperatorNodeKind S) (\<lambda>K.
         if K \<noteq> PostfixUnaryOperatorExpression
           then Inl (AssertionFailed
                  ''getOperatorNodeKind(*S) == syntax::NodeKind::PostfixUnaryOperatorExpression'')
         else traverseArguments RAV S rest s)
     else
       bind (TraverseStmt RAV (Some (IsExpr child)) s) (\<lambda>(ok, s').
         if \<not> ok then Inr (False, s') else traverseArguments RAV S rest s'))"

definition TraverseCXXOperatorCallExpr ::
  "(nat option \<Rightarrow> TreeBuilder \<Rightarrow> error + bool \<times> TreeBuilder)
    \<Rightarrow> CXXOperatorCallExpr \<Rightarrow> TreeBuilder \<Rightarrow> error + bool \<times> TreeBuilder" where
  "TraverseCXXOperatorCallExpr RAV S s =
    bind (traverseArguments RAV S (arguments S) s) (\<lambda>(ok, s').
      if \<not> ok then Inr (False, s') else WalkUpFromCXXOperatorCallExpr S s')"

subsection \<open>How a builder state evolves\<close>

text \<open>
  From \<open>s\<close> to \<open>s'\<close> the allocator has handed out nodes of the kinds \<open>ks\<close>, in this order,
  and nothing else: the nodes that \<open>s\<close> had keep their kind, and their role once it is not
  \<open>Detached\<close>; the arena, the token index and the marked declarations are the same.
\<close>

definition grows :: "TreeBuilder \<Rightarrow> NodeKind list \<Rightarrow> TreeBuilder \<Rightarrow> bool" where
  "grows s ks s' \<longleftrightarrow>
     NextFree s' = NextFree s + length ks
   \<and> map (\<lambda>n. Kind (Store s' n)) [NextFree s..<NextFree s'] = ks
   \<and> (\<forall>n < NextFree s. Kind (Store s' n) = Kind (Store s n))
   \<and> (\<forall>n < NextFree s. Role (Store s n) \<noteq> Detached \<longrightarrow> Role (Store s' n) = Role (Store s n))
   \<and> Arena s' = Arena s \<and> LocationToToken s' = LocationToToken s
   \<and> DeclsWithoutSemicolons s' = DeclsWithoutSemicolons s"

text \<open>The tokens of \<^verbatim>\<open>this;\<close>, a written \<^verbatim>\<open>this\<close> and an implicit one.\<close>

definition this_arena :: Arena where
  "this_arena =
    \<lparr>expandedTokens = [\<lparr>kind = tok_kw_this, location = 1\<rparr>,
                       \<lparr>kind = tok_semi, location = 2\<rparr>,
                       \<lparr>kind = tok_eof, location = 3\<rparr>],
     spelledForExpanded = (\<lambda>_. True),
     isBeforeInTranslationUnit = (\<lambda>a b. a < b)\<rparr>"

definition explicit_this :: CXXThisExpr where
  "explicit_this =
    \<lparr>stmtPtr = 5, getStmtClass = CXXThisExprClass, getSourceRange = (1, 1),
     IgnoreImplicit = 5, isImplicit = False, This_getLocation = 1\<rparr>"

definition implicit_this :: CXXThisExpr where
  "implicit_this =
    \<lparr>stmtPtr = 6, getStmtClass = CXXThisExprClass, getSourceRange = (0, 0),
     IgnoreImplicit = 6, isImplicit = True, This_getLocation = 0\<rparr>"

text \<open>The tokens of \<^verbatim>\<open>a.b;\<close>, the builder once \<^verbatim>\<open>a\<close> has its id-expression, the member
  expression, and a member named without an object in \<^verbatim>\<open>x;\<close>.\<close>

definition member_arena :: Arena where
  "member_arena =
    \<lparr>expandedTokens = [\<lparr>kind = tok_identifier, location = 1\<rparr>,
                       \<lparr>kind = tok_period, location = 2\<rparr>,
                       \<lparr>kind = tok_identifier, location = 3\<rparr>,
                       \<lparr>kind = tok_semi, location = 4\<rparr>,
                       \<lparr>kind = tok_eof, location = 5\<rparr>],
     spelledForExpanded = (\<lambda>_. True),
     isBeforeInTranslationUnit = (\<lambda>a b. a < b)\<rparr>"

definition member_ready :: TreeBuilder where
  "member_ready =
    snd (projr (buildIdExpression None 0 (1, 1) (Some (StmtPtr 1))
                  (projr (TreeBuilder_init member_arena))))"

definition member_a_b :: MemberExpr where
  "member_a_b =
    \<lparr>stmtPtr = 2, getStmtClass = MemberExprClass, getSourceRange = (1, 3), IgnoreImplicit = 2,
     isImplicitAccess = False, getQualifierLoc = None, getTemplateKeywordLoc = 0,
     getMemberLoc = 3, getBase = expr_x, Member_getOperatorLoc = 2\<rparr>"

definition implicit_member_x :: MemberExpr where
  "implicit_member_x =
    \<lparr>stmtPtr = 9, getStmtClass = MemberExprClass, getSourceRange = (1, 1), IgnoreImplicit = 9,
     isImplicitAccess = True, getQualifierLoc = None, getTemplateKeywordLoc = 0,
     getMemberLoc = 1,
     getBase = \<lparr>stmtPtr = 8, getStmtClass = CXXThisExprClass, getSourceRange = (0, 0),
                 IgnoreImplicit = 8\<rparr>,
     Member_getOperatorLoc = 0\<rparr>"

text \<open>
  Traversing the expressions \<open>xs\<close> one after the other with
  \<^verbatim>\<open>TraverseStmt\<close>, none passed over: what the loop of
  \<^verbatim>\<open>TraverseCXXOperatorCallExpr\<close> is compared with.
\<close>

fun traverseAll ::
  "(nat option \<Rightarrow> TreeBuilder \<Rightarrow> error + bool \<times> TreeBuilder)
    \<Rightarrow> Expr list \<Rightarrow> TreeBuilder \<Rightarrow> error + bool \<times> TreeBuilder" where
  "traverseAll RAV [] s = Inr (True, s)"
| "traverseAll RAV (child # rest) s =
    bind (TraverseStmt RAV (Some (IsExpr child)) s) (\<lambda>(ok, s').
      if \<not> ok then Inr (False, s') else traverseAll RAV rest s')"

text \<open>
  The tokens of \<^verbatim>\<open>a++;\<close> for the call \<open>postfix_increment_call\<close>, and a traversal
  that builds the id-expression of the operand \<^verbatim>\<open>a\<close> and fails on any other
  statement.
\<close>

definition incr_arena :: Arena where
  "incr_arena =
    \<lparr>expandedTokens = [\<lparr>kind = tok_identifier, location = 10\<rparr>,
                       \<lparr>kind = tok_plusplus, location = 11\<rparr>,
                       \<lparr>kind = tok_semi, location = 12\<rparr>,
                       \<lparr>kind = tok_eof, location = 13\<rparr>],
     spelledForExpanded = (\<lambda>_. True),
     isBeforeInTranslationUnit = (\<lambda>a b. a < b)\<rparr>"

definition only_operand :: "nat option \<Rightarrow> TreeBuilder \<Rightarrow> error + bool \<times> TreeBuilder" where
  "only_operand p s =
    (if p = Some 1
     then bind (buildIdExpression None 0 (10, 10) (Some (StmtPtr 1)) s)
            (\<lambda>(N, s'). Inr (True, s'))
     else Inl (AssertionFailed ''not the operand''))"

subsection \<open>Declarators and declarations\<close>

text \<open>
  \<^verbatim>\<open>GetStartLoc().Visit\<close>. A parenthesised or pointer-like type asks its inner type
  first; \<^verbatim>\<open>VisitTypeLoc\<close> goes to the next type location, if any; a function
  prototype with a trailing return gives the invalid location.
\<close>

fun GetStartLoc_Visit :: "TypeLoc \<Rightarrow> SourceLocation" where
  "GetStartLoc_Visit (ParenTypeLoc e lp inner) =
    (let L = GetStartLoc_Visit inner in if isValid L then L else lp)"
| "GetStartLoc_Visit (PointerLikeTypeLoc k e lb pointee) =
    (let L = GetStartLoc_Visit pointee in if isValid L then L else lb)"
| "GetStartLoc_Visit (FunctionProtoTypeLoc e tr ret) =
    (if tr then 0 else GetStartLoc_Visit ret)"
| "GetStartLoc_Visit (OtherTypeLoc e None) = 0"
| "GetStartLoc_Visit (OtherTypeLoc e (Some N)) = GetStartLoc_Visit N"

definition getDeclaratorRange ::
  "Arena \<Rightarrow> TypeLoc \<Rightarrow> SourceLocation \<Rightarrow> SourceRange \<Rightarrow> error + SourceRange" where
  "getDeclaratorRange SM T Name Initializer =
    (let Start = GetStartLoc_Visit T;
         End = TypeLoc_getEnd T in
     if \<not> isValid End then Inl (AssertionFailed ''End.isValid()'')
     else
       let Start1 = (if isValid Name \<and> isInvalid Start then Name else Start);
           End1 = (if isValid Name \<and> isBeforeInTranslationUnit SM End Name then Name else End)
       in
       if isValidRange Initializer then
         let InitializerEnd = getEnd Initializer in
         if \<not> (isBeforeInTranslationUnit SM End1 InitializerEnd \<or> End1 = InitializerEnd)
           then Inl (AssertionFailed
                  ''SM.isBeforeInTranslationUnit(End, InitializerEnd) || End == InitializerEnd'')
         else Inr (Start1, InitializerEnd)
       else Inr (Start1, End1))"

text \<open>The class \<open>T\<close> that the two templates are instantiated with.\<close>

datatype DeclClass = DeclaratorDecl_T | TypedefNameDecl_T

definition isaT :: "DeclClass \<Rightarrow> DeclKind \<Rightarrow> bool" where
  "isaT T K =
    (case T of DeclaratorDecl_T \<Rightarrow> isaDeclaratorDecl K | TypedefNameDecl_T \<Rightarrow> isaTypedefNameDecl K)"

definition getBeginLoc_T :: "DeclClass \<Rightarrow> Decl \<Rightarrow> SourceLocation" where
  "getBeginLoc_T T D =
    (case T of
       DeclaratorDecl_T \<Rightarrow> DeclaratorDecl_getBeginLoc (info D)
     | TypedefNameDecl_T \<Rightarrow> TypeDecl_getBeginLoc (info D))"

definition isResponsibleForCreatingDeclaration :: "DeclClass \<Rightarrow> Decl \<Rightarrow> bool" where
  "isResponsibleForCreatingDeclaration T D =
    (case getNextDeclInContext D of
       None \<Rightarrow> True
     | Some Next \<Rightarrow>
         if \<not> isaT T (getKind (info Next)) then True
         else if getBeginLoc_T T Next \<noteq> getBeginLoc_T T D then True
         else False)"

definition getQualifiedNameStart :: "Decl \<Rightarrow> SourceLocation" where
  "getQualifiedNameStart D =
    (if isAnonymous (info D) then 0
     else if isaDeclaratorDecl (getKind (info D)) then
       (case Decl_getQualifierLoc (info D) of
          Some Q \<Rightarrow> NNS_getBeginLoc Q
        | None \<Rightarrow> Decl_getLocation (info D))
     else Decl_getLocation (info D))"

definition getInitializerRange :: "Decl \<Rightarrow> SourceRange" where
  "getInitializerRange D =
    (if isaVarDecl (getKind (info D)) then
       (case getInit (info D) of
          Some I \<Rightarrow> if \<not> isCXXForRangeDecl (info D) then getSourceRange I else (0, 0)
        | None \<Rightarrow> (0, 0))
     else (0, 0))"

definition processDeclaratorAndDeclaration ::
  "DeclClass \<Rightarrow> Decl \<Rightarrow> TreeBuilder \<Rightarrow> error + bool \<times> TreeBuilder" where
  "processDeclaratorAndDeclaration T D s =
    (let Initializer = getInitializerRange D in
     bind (getDeclaratorRange (Arena s) (getTypeLoc (info D)) (getQualifiedNameStart D)
             Initializer) (\<lambda>Rng.
     bind (if isValid (getBegin Rng) then
             (let (N, s1) = allocate SimpleDeclarator s in
              bind (getRange s1 Rng) (\<lambda>R.
              bind (foldNode R N None s1) (\<lambda>s2.
                markChild N SimpleDeclaration_declarator s2)))
           else Inr s) (\<lambda>s3.
     bind (if isResponsibleForCreatingDeclaration T D then
             (let (N2, s4) = allocate SimpleDeclaration s3 in
              bind (getDeclarationRange s4 D) (\<lambda>R2.
                foldNode R2 N2 (Some (DeclPtr (declPtr (info D)))) s4))
           else Inr s3) (\<lambda>s5.
       Inr (True, s5)))))"

text \<open>
  The chain of declarators that begins with \<open>D\<close>: \<open>D\<close> and the siblings after it, as long
  as the next sibling is of the class \<open>T\<close> and begins where its predecessor begins.
\<close>

fun chain :: "DeclClass \<Rightarrow> Decl \<Rightarrow> Decl list" where
  "chain T (Decl i None) = [Decl i None]"
| "chain T (Decl i (Some Next)) =
    (if isaT T (getKind (info Next))
        \<and> getBeginLoc_T T Next = getBeginLoc_T T (Decl i (Some Next))
     then Decl i (Some Next) # chain T Next
     else [Decl i (Some Next)])"

text \<open>The tokens of \<^verbatim>\<open>int a, *b;\<close> and its two variables.\<close>

definition two_vars_arena :: Arena where
  "two_vars_arena =
    \<lparr>expandedTokens = [\<lparr>kind = tok_kw_int, location = 1\<rparr>,
                       \<lparr>kind = tok_identifier, location = 2\<rparr>,
                       \<lparr>kind = tok_comma, location = 3\<rparr>,
                       \<lparr>kind = tok_star, location = 4\<rparr>,
                       \<lparr>kind = tok_identifier, location = 5\<rparr>,
                       \<lparr>kind = tok_semi, location = 6\<rparr>,
                       \<lparr>kind = tok_eof, location = 7\<rparr>],
     spelledForExpanded = (\<lambda>_. True),
     isBeforeInTranslationUnit = (\<lambda>a b. a < b)\<rparr>"

definition var_b :: Decl where
  "var_b =
    Decl (plain_info\<lparr>declPtr := 2, getKind := Var_Decl, Decl_getSourceRange := (1, 5),
            DeclaratorDecl_getBeginLoc := 1,
            getTypeLoc := PointerLikeTypeLoc PointerTypeLoc 4 4 (OtherTypeLoc 1 None),
            Decl_getLocation := 5\<rparr>)
      None"

definition var_a :: Decl where
  "var_a =
    Decl (plain_info\<lparr>declPtr := 1, getKind := Var_Decl, Decl_getSourceRange := (1, 2),
            DeclaratorDecl_getBeginLoc := 1,
            getTypeLoc := OtherTypeLoc 1 None, Decl_getLocation := 2\<rparr>)
      (Some var_b)"

subsection \<open>Finishing the tree\<close>






subsection \<open>Leaves and well-formed traversals\<close>

text \<open>
  The tokens below a node, left to right. A child is followed only if it was allocated
  before its parent, which holds of every child in the trees that the builder makes.
\<close>

function leaves :: "(nat \<Rightarrow> Node) \<Rightarrow> nat \<Rightarrow> nat list" where
  "leaves st n =
    (case token (st n) of
       Some T \<Rightarrow> [T]
     | None \<Rightarrow> concat (map (leaves st) (filter (\<lambda>c. c < n) (children (st n)))))"
  by pat_completeness auto
termination
  by (relation "measure snd") auto

text \<open>
  The entries \<open>T\<close> of the forest partition the tokens from \<open>a\<close> up to \<open>N\<close>: each entry has
  the key of its first token and covers at least one token, and the next entry begins
  where it ends.
\<close>

fun covers :: "(nat \<Rightarrow> Node) \<Rightarrow> (nat \<times> nat) list \<Rightarrow> nat \<Rightarrow> nat \<Rightarrow> bool" where
  "covers st [] a N = (a = N)"
| "covers st (x # T) a N =
    (fst x = a \<and> leaves st (snd x) \<noteq> []
     \<and> leaves st (snd x) = [a..<a + length (leaves st (snd x))]
     \<and> covers st T (a + length (leaves st (snd x))) N)"




text \<open>
  The invariant of the builder from call to call: the forest partitions the tokens before
  the end of file, its entries are allocated, and every child was allocated before its
  parent.
\<close>

definition forest_inv :: "TreeBuilder \<Rightarrow> bool" where
  "forest_inv s \<longleftrightarrow>
     covers (Store s) (Trees s) 0 (length (expandedTokens (Arena s)) - 1)
   \<and> (\<forall>x \<in> set (Trees s). snd x < NextFree s)
   \<and> (\<forall>n. \<forall>c \<in> set (children (Store s n)). c < n \<and> n < NextFree s)"



subsection \<open>The forest after a fold\<close>

text \<open>
  The entries of the forest that begin at a token of a range, and the forest once they are
  replaced by one entry for the node \<open>N\<close> at the first token of the range.
\<close>

definition pendingIn :: "TokenRange \<Rightarrow> (nat \<times> nat) list \<Rightarrow> (nat \<times> nat) list" where
  "pendingIn Rng T = filter (\<lambda>x. fst Rng \<le> fst x \<and> fst x < snd Rng) T"

definition foldInto :: "TokenRange \<Rightarrow> nat \<Rightarrow> (nat \<times> nat) list \<Rightarrow> (nat \<times> nat) list" where
  "foldInto Rng N T =
    map_insert (fst Rng, N) (filter (\<lambda>x. \<not> (fst Rng \<le> fst x \<and> fst x < snd Rng)) T)"

section \<open>Properties\<close>

lemmas eval_init = TreeBuilder_init_def Forest_init_def bind_def

lemmas eval_range = getRange_def getRange2_def findToken_def isValidRange_def isValid_def
  isInvalid_def getBegin_def getEnd_def

subsection \<open>Operator classification\<close>

text \<open>
  Claim C2. For an overloaded operator call, \<open>getOperatorNodeKind\<close> returns a node kind
  exactly where the classification table of the specification has an entry for the operator
  and the number of arguments, and the kind it returns is the entry: binary for the
  comparisons, the assignments, \<open>/ % ^ | << >> && || ->* ,\<close>; prefix unary for \<open>~ !\<close>;
  prefix unary with one argument and postfix unary with two for \<open>++ --\<close>; prefix unary with
  one argument and binary with two for \<open>+ - * &\<close>; unknown expression for
  \<open>new delete new[] delete[] co_await () [] ->\<close>.
\<close>

theorem C2_operator_shape:
  "getOperatorNodeKind E = Inr k
    \<longleftrightarrow> spec_operator_table (getOperator E) (getNumArgs E) = Some k"
  unfolding spec_operator_table_def spec_binary_only_def spec_prefix_only_def
    spec_increment_def spec_unary_or_binary_def spec_unsupported_def getOperatorNodeKind_def
  by (cases "getOperator E") (auto split: if_splits)

theorem C2_operator_shape_witness:
  "getOperatorNodeKind postfix_increment_call = Inr PostfixUnaryOperatorExpression"
  using C2_operator_shape [of postfix_increment_call PostfixUnaryOperatorExpression]
  by (simp add: postfix_increment_call_def spec_operator_table_def spec_binary_only_def
        spec_prefix_only_def spec_increment_def getNumArgs_def)

subsection \<open>Name specifier classification\<close>

text \<open>
  Claim C9. Classifying the \<open>__super\<close> specifier aborts with the fatal error "We don't yet
  support the __super specifier". Every other specifier kind is classified without error:
  the global specifier as \<open>GlobalNameSpecifier\<close>, a decltype type as
  \<open>DecltypeNameSpecifier\<close>, a template specialization (plain or dependent, or any type
  written with the \<open>template\<close> keyword) as \<open>SimpleTemplateNameSpecifier\<close>, and an
  identifier, a namespace, a namespace alias or any other type as
  \<open>IdentifierNameSpecifier\<close>.
\<close>

theorem C9_name_specifier_kind:
  "getNameSpecifierKind Super = Inl (FatalError ''We don't yet support the __super specifier'')
   \<and> getNameSpecifierKind Global = Inr GlobalNameSpecifier
   \<and> getNameSpecifierKind (TypeSpec DecltypeType) = Inr DecltypeNameSpecifier
   \<and> getNameSpecifierKind (TypeSpec TemplateSpecializationType) = Inr SimpleTemplateNameSpecifier
   \<and> getNameSpecifierKind (TypeSpec DependentTemplateSpecializationType)
       = Inr SimpleTemplateNameSpecifier
   \<and> getNameSpecifierKind (TypeSpecWithTemplate T) = Inr SimpleTemplateNameSpecifier
   \<and> getNameSpecifierKind (TypeSpec OtherType) = Inr IdentifierNameSpecifier
   \<and> getNameSpecifierKind Identifier = Inr IdentifierNameSpecifier
   \<and> getNameSpecifierKind Namespace = Inr IdentifierNameSpecifier
   \<and> getNameSpecifierKind NamespaceAlias = Inr IdentifierNameSpecifier
   \<and> (NNS \<noteq> Super \<longrightarrow> (\<exists>k. getNameSpecifierKind NNS = Inr k))"
  by (cases NNS) (simp_all add: getNameSpecifierKind_def getAsType_def)

theorem C9_name_specifier_kind_witness:
  "getNameSpecifierKind (TypeSpecWithTemplate DependentTemplateSpecializationType)
     = Inr SimpleTemplateNameSpecifier
   \<and> (\<exists>k. getNameSpecifierKind (TypeSpec DecltypeType) = Inr k)"
  using C9_name_specifier_kind [of DependentTemplateSpecializationType "TypeSpec DecltypeType"]
  by simp

subsection \<open>Trailing semicolons\<close>

lemma ArrayRef_back_eq:
  "b < e \<Longrightarrow> e < length (expandedTokens (Arena s))
    \<Longrightarrow> ArrayRef_back s (b, e) = Inr (expandedTokens (Arena s) ! (e - 1))"
  by (simp add: ArrayRef_back_def tokenAt_def)

lemma withTrailingSemicolon_eq:
  assumes "b < e" "e < length (expandedTokens (Arena s))"
    and "kind (expandedTokens (Arena s) ! (e - 1)) \<noteq> tok_eof"
  shows "withTrailingSemicolon s (b, e) =
    Inr (if kind (expandedTokens (Arena s) ! (e - 1)) \<noteq> tok_semi
            \<and> kind (expandedTokens (Arena s) ! e) = tok_semi
         then (b, Suc e) else (b, e))"
proof -
  have "tokenAt s e = Inr (expandedTokens (Arena s) ! e)"
    using assms(2) by (simp add: tokenAt_def)
  then show ?thesis
    using assms ArrayRef_back_eq [OF assms(1,2)]
    by (simp add: withTrailingSemicolon_def bind_def)
qed

text \<open>
  Claim C3. Let the source range of a statement name the tokens \<open>b\<close> to \<open>e - 1\<close>, the last
  of them not the end of file. The range computed for the statement is the same range
  extended by the token \<open>e\<close> when the statement is not a compound statement, token \<open>e\<close> is
  a semicolon and token \<open>e - 1\<close> is not; it is the range \<open>(b, e)\<close> itself otherwise, so
  always for a compound statement.
\<close>

theorem C3_statement_range:
  assumes "getRange s (getSourceRange S) = Inr (b, e)"
    and "b < e" and "e < length (expandedTokens (Arena s))"
    and "kind (expandedTokens (Arena s) ! (e - 1)) \<noteq> tok_eof"
  shows "getStmtRange s S =
    Inr (if getStmtClass S \<noteq> CompoundStmtClass
            \<and> kind (expandedTokens (Arena s) ! (e - 1)) \<noteq> tok_semi
            \<and> kind (expandedTokens (Arena s) ! e) = tok_semi
         then (b, Suc e) else (b, e))"
  using assms(1) withTrailingSemicolon_eq [OF assms(2,3,4)] ArrayRef_back_eq [OF assms(2,3)]
  by (simp add: getStmtRange_def bind_def)

theorem C3_statement_range_witness:
  "getStmtRange (projr (TreeBuilder_init expr_stmt_arena)) expr_x = Inr (0, 2)"
  using C3_statement_range [of "projr (TreeBuilder_init expr_stmt_arena)" expr_x 0 1]
  by (simp add: eval_init eval_range expr_stmt_arena_def expr_x_def)

text \<open>
  Claim C4, as stated, fails: in \<^verbatim>\<open>;;\<close> the first empty declaration is followed by a
  semicolon, is no namespace and is not marked, and yet its range is its own token only.
\<close>

theorem C4_counterexample:
  "getDeclarationRange (projr (TreeBuilder_init two_semis_arena)) first_empty_decl = Inr (0, 1)
   \<and> kind (expandedTokens two_semis_arena ! 1) = tok_semi
   \<and> \<not> isaNamespaceDecl (getKind (info first_empty_decl))
   \<and> declPtr (info first_empty_decl)
        \<notin> DeclsWithoutSemicolons (projr (TreeBuilder_init two_semis_arena))"
  by (simp add: eval_init eval_range two_semis_arena_def first_empty_decl_def plain_info_def
        getDeclarationRange_def maybeAppendSemicolon_def withTrailingSemicolon_def
        ArrayRef_back_def tokenAt_def isaNamespaceDecl_def isaTagDecl_def)

lemma fold_notice:
  "fold noticeDeclWithoutSemicolon decls s =
    s\<lparr>DeclsWithoutSemicolons := DeclsWithoutSemicolons s \<union> (\<lambda>D. declPtr (info D)) ` set decls\<rparr>"
  by (induction decls arbitrary: s) (simp_all add: noticeDeclWithoutSemicolon_def)

text \<open>
  Claim C4, amended. Let the tokens of a declaration be \<open>b\<close> to \<open>e - 1\<close>, the last of them
  not the end of file. The declaration's range is extended by the token \<open>e\<close> if and only
  if token \<open>e\<close> is a semicolon, token \<open>e - 1\<close> is not a semicolon, the declaration is not a
  namespace and it is not marked as being without semicolon; otherwise the range is
  \<open>(b, e)\<close>. Traversing a declaration statement marks each of its declarations before the
  statement and its children are walked, and a declaration so marked keeps the range
  \<open>(b, e)\<close>.
\<close>

theorem C4_declaration_range:
  assumes "b < e" and "e < length (expandedTokens (Arena s))"
    and "kind (expandedTokens (Arena s) ! (e - 1)) \<noteq> tok_eof"
  shows "maybeAppendSemicolon s (b, e) D =
      Inr (if kind (expandedTokens (Arena s) ! e) = tok_semi
              \<and> kind (expandedTokens (Arena s) ! (e - 1)) \<noteq> tok_semi
              \<and> \<not> isaNamespaceDecl (getKind (info D))
              \<and> declPtr (info D) \<notin> DeclsWithoutSemicolons s
           then (b, Suc e) else (b, e))
    \<and> TraverseStmt RAV (Some (IsDeclStmt DS decls)) s =
        RAV (Some (stmtPtr DS))
          (s\<lparr>DeclsWithoutSemicolons :=
               DeclsWithoutSemicolons s \<union> (\<lambda>D. declPtr (info D)) ` set decls\<rparr>)
    \<and> (D \<in> set decls \<longrightarrow>
         maybeAppendSemicolon
           (s\<lparr>DeclsWithoutSemicolons :=
               DeclsWithoutSemicolons s \<union> (\<lambda>D. declPtr (info D)) ` set decls\<rparr>) (b, e) D
         = Inr (b, e))"
  using withTrailingSemicolon_eq [OF assms]
  by (simp add: maybeAppendSemicolon_def TraverseStmt_def fold_notice)

theorem C4_declaration_range_witness:
  "maybeAppendSemicolon (projr (TreeBuilder_init expr_stmt_arena)) (0, 1) var_x = Inr (0, 2)
   \<and> TraverseStmt (\<lambda>p s. Inr (True, s)) (Some (IsDeclStmt decl_stmt_x [var_x]))
        (projr (TreeBuilder_init expr_stmt_arena))
      = Inr (True, (projr (TreeBuilder_init expr_stmt_arena))\<lparr>DeclsWithoutSemicolons := {1}\<rparr>)
   \<and> maybeAppendSemicolon
        ((projr (TreeBuilder_init expr_stmt_arena))\<lparr>DeclsWithoutSemicolons := {1}\<rparr>) (0, 1) var_x
      = Inr (0, 1)"
  using C4_declaration_range [of 0 1 "projr (TreeBuilder_init expr_stmt_arena)" var_x
      "\<lambda>p s. Inr (True, s)" decl_stmt_x "[var_x]"]
  by (simp add: eval_init expr_stmt_arena_def var_x_def plain_info_def isaNamespaceDecl_def)

subsection \<open>Folding\<close>

lemma foldStore_Nil: "foldStore N [] st = st"
  by (rule ext) (simp add: foldStore_def)

lemma foldStore_Cons: "foldStore N xs (foldStep N x st) = foldStore N (x # xs) st"
  by (rule ext)
     (simp add: foldStore_def foldStep_def prependChildLowLevel_def setRole_store_def)

lemma fold_foldStep: "fold (foldStep N) xs st = foldStore N xs st"
  by (induction xs arbitrary: st) (simp_all add: foldStore_Nil foldStore_Cons)

lemma lower_bound_le: "lower_bound T k \<le> length T"
  by (simp add: lower_bound_def length_takeWhile_le)

lemma foldLoop_run:
  "E \<le> length T \<Longrightarrow>
   foldLoop T N B E st =
    (if B \<le> E
     then Inr (fold (foldStep N) (rev (map snd (take (E - B) (drop B T)))) st)
     else Inl (UndefinedBehaviour ''std::prev(Trees.begin())''))"
proof (induction E arbitrary: st)
  case 0
  then show ?case by simp
next
  case (Suc It)
  show ?case
  proof (cases "Suc It = B")
    case True
    then have "B = Suc It" by simp
    then show ?thesis by simp
  next
    case False
    show ?thesis
    proof (cases "B \<le> It")
      case True
      have len: "It - B < length (drop B T)" using Suc.prems True by simp
      have "take (Suc It - B) (drop B T) = take (It - B) (drop B T) @ [T ! It]"
        using True len Suc_diff_le [OF True] take_Suc_conv_app_nth [OF len] by simp
      then show ?thesis
        using Suc False True by (simp add: Let_def foldStep_def)
    next
      case F: False
      then show ?thesis using Suc False by (simp add: Let_def)
    qed
  qed
qed

lemma lower_bound_append:
  assumes "\<forall>x \<in> set xs. fst x < k" and "ys = [] \<or> k \<le> fst (hd ys)"
  shows "lower_bound (xs @ ys) k = length xs"
proof -
  have "takeWhile (\<lambda>e. fst e < k) ys = []"
    using assms(2) by (cases ys) auto
  then show ?thesis
    using assms(1) by (simp add: lower_bound_def takeWhile_append2)
qed

lemma map_insert_mid:
  "\<forall>x \<in> set pre. fst x < k \<Longrightarrow> \<forall>y \<in> set post. k < fst y
    \<Longrightarrow> map_insert (k, v) (pre @ post) = pre @ (k, v) # post"
proof (induction pre)
  case Nil
  then show ?case by (cases post) auto
next
  case (Cons a pre)
  then show ?case by auto
qed

lemma foldChildren_coincides:
  assumes sorted: "sorted_wrt (<) (map fst (Trees s))"
    and split: "Trees s = pre @ mid @ post"
    and mid: "mid \<noteq> []" "fst (hd mid) = b" "\<forall>x \<in> set mid. fst x < e"
    and post: "post \<noteq> [] \<longrightarrow> fst (hd post) = e"
    and childless: "children (Store s N) = []"
  shows "foldChildren (b, e) N s =
    Inr (s\<lparr>Store := (foldStore N (rev (map snd mid)) (Store s))
                     (N := (foldStore N (rev (map snd mid)) (Store s) N)
                             \<lparr>Original := True, CanModify := spelledForExpanded (Arena s) (b, e)\<rparr>),
           Trees := pre @ (b, N) # post\<rparr>)"
proof -
  obtain m ms where m: "mid = m # ms" using mid(1) by (cases mid) auto
  have s1: "sorted_wrt (<) (map fst pre @ map fst mid @ map fst post)"
    using sorted split by simp
  have pre_lt: "\<forall>x \<in> set pre. fst x < b"
    using s1 mid(2) m by (auto simp: sorted_wrt_append)
  have post_gt: "\<forall>y \<in> set post. b < fst y"
    using s1 mid(2) m by (auto simp: sorted_wrt_append)
  have B: "lower_bound (Trees s) b = length pre"
    unfolding split using pre_lt mid(2) m by (intro lower_bound_append) auto
  have "lower_bound ((pre @ mid) @ post) e = length (pre @ mid)"
  proof (intro lower_bound_append)
    show "\<forall>x\<in>set (pre @ mid). fst x < e"
      using pre_lt mid(3) m mid(2) by fastforce
    show "post = [] \<or> e \<le> fst (hd post)" using post by auto
  qed
  then have E: "lower_bound (Trees s) e = length pre + length mid"
    unfolding split by simp
  have nthB: "Trees s ! length pre = m" unfolding split m by simp
  have nthE: "post \<noteq> [] \<Longrightarrow> Trees s ! (length pre + length mid) = hd post"
    unfolding split by (cases post) (simp_all add: nth_append)
  have len: "length (Trees s) = length pre + length mid + length post"
    unfolding split by simp
  have loop: "foldLoop (Trees s) N (length pre) (length pre + length mid) (Store s)
      = Inr (foldStore N (rev (map snd mid)) (Store s))"
    using foldLoop_run [of "length pre + length mid" "Trees s" N "length pre" "Store s"] len
    by (simp add: split fold_foldStep)
  have er: "erase (length pre) (length pre + length mid) (Trees s) = pre @ post"
    unfolding split erase_def by simp
  have ins: "map_insert (b, N) (pre @ post) = pre @ (b, N) # post"
    using pre_lt post_gt by (rule map_insert_mid)
  have asrtB: "length pre = length (Trees s) \<or> fst (Trees s ! length pre) = b"
    using nthB m mid(2) by simp
  have asrtE: "length pre + length mid = length (Trees s)
      \<or> fst (Trees s ! (length pre + length mid)) = e"
    using nthE post len by (cases post) auto
  show ?thesis
    using childless asrtB asrtE
    by (simp add: foldChildren_def B E loop er ins bind_def Let_def)
qed


text \<open>
  Claim C6. Let the keys of the pending forest be ascending, let the entries \<open>mid\<close> be a
  non-empty run of consecutive entries of it, and let the token range \<open>(b, e)\<close> coincide
  with them: it begins at the key of the first, every key of the run is before \<open>e\<close>, and
  the entry after the run, if any, has the key \<open>e\<close>. Then \<open>foldChildren\<close> on a childless
  node \<open>N\<close> succeeds; every covered node whose role was \<open>Detached\<close> has the role \<open>Unknown\<close>
  and the others keep their role; the children of \<open>N\<close> are the covered nodes in token
  order; the run is replaced in the forest by the one entry of \<open>N\<close> at the key \<open>b\<close>; \<open>N\<close>
  is original, and it can be modified iff the token range has spelled tokens; no other node
  is changed.
\<close>

theorem C6_foldChildren:
  assumes "sorted_wrt (<) (map fst (Trees s))"
    and "Trees s = pre @ mid @ post"
    and "mid \<noteq> []" and "fst (hd mid) = b" and "\<forall>x \<in> set mid. fst x < e"
    and "post \<noteq> [] \<longrightarrow> fst (hd post) = e"
    and "children (Store s N) = []"
  shows "\<exists>s'. foldChildren (b, e) N s = Inr s'
    \<and> (\<forall>C \<in> set (map snd mid).
          Role (Store s' C) =
            (if Role (Store s C) = Detached then Unknown else Role (Store s C)))
    \<and> children (Store s' N) = map snd mid
    \<and> Trees s' = pre @ (b, N) # post
    \<and> Original (Store s' N) = True
    \<and> CanModify (Store s' N) = spelledForExpanded (Arena s) (b, e)
    \<and> (\<forall>n. n \<noteq> N \<and> n \<notin> set (map snd mid) \<longrightarrow> Store s' n = Store s n)"
  using assms(7)
  by (auto simp add: foldChildren_coincides [OF assms] foldStore_def)

theorem C6_foldChildren_witness:
  "\<exists>s'. foldChildren (0, 2) 2 expr_stmt_pending = Inr s'
    \<and> Role (Store s' 0) = Unknown \<and> Role (Store s' 1) = Unknown
    \<and> children (Store s' 2) = [0, 1]
    \<and> Trees s' = [(0, 2)]
    \<and> Original (Store s' 2) = True
    \<and> CanModify (Store s' 2) = True"
proof -
  have T: "Trees expr_stmt_pending = [] @ [(0, 0), (1, 1)] @ []"
    by (simp add: expr_stmt_pending_def allocate_def eval_init expr_stmt_arena_def upt_rec)
  have R: "Role (Store expr_stmt_pending 0) = Detached"
    "Role (Store expr_stmt_pending 1) = Detached"
    "children (Store expr_stmt_pending 2) = []"
    "spelledForExpanded (Arena expr_stmt_pending) (0, 2)"
    by (simp_all add: expr_stmt_pending_def allocate_def eval_init expr_stmt_arena_def
          newNode_def newLeaf_def)
  show ?thesis
    using C6_foldChildren [of expr_stmt_pending "[]" "[(0, 0), (1, 1)]" "[]" 0 2 2, OF _ T] R
    by (auto simp add: T)
qed

subsection \<open>Frame lemmas\<close>

lemma bindE:
  assumes "bind m f = Inr r"
  obtains x where "m = Inr x" and "f x = Inr r"
  using assms by (cases m) (auto simp: bind_def)

lemma grows_refl: "grows s [] s"
  by (simp add: grows_def)

lemma grows_trans:
  assumes "grows s ks1 s1" and "grows s1 ks2 s2"
  shows "grows s (ks1 @ ks2) s2"
proof -
  from assms(1) have n1: "NextFree s1 = NextFree s + length ks1"
    and k1: "map (\<lambda>n. Kind (Store s1 n)) [NextFree s..<NextFree s1] = ks1"
    and p1: "\<forall>n < NextFree s. Kind (Store s1 n) = Kind (Store s n)"
    and r1: "\<forall>n < NextFree s. Role (Store s n) \<noteq> Detached
               \<longrightarrow> Role (Store s1 n) = Role (Store s n)"
    and o1: "Arena s1 = Arena s" "LocationToToken s1 = LocationToToken s"
      "DeclsWithoutSemicolons s1 = DeclsWithoutSemicolons s"
    unfolding grows_def by blast+
  from assms(2) have n2: "NextFree s2 = NextFree s1 + length ks2"
    and k2: "map (\<lambda>n. Kind (Store s2 n)) [NextFree s1..<NextFree s2] = ks2"
    and p2: "\<forall>n < NextFree s1. Kind (Store s2 n) = Kind (Store s1 n)"
    and r2: "\<forall>n < NextFree s1. Role (Store s1 n) \<noteq> Detached
               \<longrightarrow> Role (Store s2 n) = Role (Store s1 n)"
    and o2: "Arena s2 = Arena s1" "LocationToToken s2 = LocationToToken s1"
      "DeclsWithoutSemicolons s2 = DeclsWithoutSemicolons s1"
    unfolding grows_def by blast+
  have le: "NextFree s \<le> NextFree s1" "NextFree s1 \<le> NextFree s2" using n1 n2 by simp_all
  have split: "[NextFree s..<NextFree s2] = [NextFree s..<NextFree s1] @ [NextFree s1..<NextFree s2]"
    using le by (metis le_Suc_ex upt_add_eq_append)
  have "map (\<lambda>n. Kind (Store s2 n)) [NextFree s..<NextFree s1]
      = map (\<lambda>n. Kind (Store s1 n)) [NextFree s..<NextFree s1]"
    using p2 by simp
  then have K: "map (\<lambda>n. Kind (Store s2 n)) [NextFree s..<NextFree s2] = ks1 @ ks2"
    using k1 k2 split by simp
  have P: "\<forall>n < NextFree s. Kind (Store s2 n) = Kind (Store s n)"
    using p1 p2 le by simp
  have R: "\<forall>n < NextFree s. Role (Store s n) \<noteq> Detached
               \<longrightarrow> Role (Store s2 n) = Role (Store s n)"
  proof (intro allI impI)
    fix n assume n: "n < NextFree s" and d: "Role (Store s n) \<noteq> Detached"
    then have a: "Role (Store s1 n) = Role (Store s n)" using r1 by simp
    have "n < NextFree s1" using n le by simp
    then show "Role (Store s2 n) = Role (Store s n)" using r2 a d by simp
  qed
  show ?thesis
    unfolding grows_def using n1 n2 K P R o1 o2 by simp
qed

lemma setRole_grows:
  assumes "setRole N R s = Inr s'"
  shows "grows s [] s'" and "Trees s' = Trees s" and "Nodes s' = Nodes s"
    and "NNSNodes s' = NNSNodes s" and "Role (Store s' N) = R"
    and "Role (Store s N) = Detached"
  using assms by (auto simp: setRole_def grows_def setRole_store_def split: if_splits)

lemma assignRole_grows:
  assumes "assignRole Rng R s = Inr s'"
  shows "grows s [] s'" and "Trees s' = Trees s" and "Nodes s' = Nodes s"
    and "NNSNodes s' = NNSNodes s"
  using assms
  by (auto simp: assignRole_def grows_def setRole_store_def Let_def split: if_splits)

lemma allocate_grows:
  assumes "allocate K s = (N, s')"
  shows "N = NextFree s" and "grows s [K] s'" and "Trees s' = Trees s" and "Nodes s' = Nodes s"
    and "NNSNodes s' = NNSNodes s" and "children (Store s' N) = []"
    and "Role (Store s' N) = Detached"
  using assms by (auto simp: allocate_def grows_def newNode_def)

lemma Mapping_add_grows:
  assumes "Mapping_add P N s = Inr s'"
  shows "grows s [] s'" and "Trees s' = Trees s" and "Nodes s' = (Nodes s)(P \<mapsto> N)"
    and "NNSNodes s' = NNSNodes s" and "Store s' = Store s"
  using assms by (auto simp: Mapping_add_def grows_def split: if_splits)



text \<open>What a successful fold is, whatever the range.\<close>

lemma foldChildren_success:
  assumes "foldChildren Rng N s = Inr s'"
  obtains xs where
    "s' = s\<lparr>Store := (foldStore N xs (Store s))
                     (N := (foldStore N xs (Store s) N)
                             \<lparr>Original := True, CanModify := spelledForExpanded (Arena s) Rng\<rparr>),
           Trees := map_insert (fst Rng, N)
                      (erase (lower_bound (Trees s) (fst Rng)) (lower_bound (Trees s) (snd Rng))
                         (Trees s))\<rparr>"
    and "lower_bound (Trees s) (fst Rng) \<le> lower_bound (Trees s) (snd Rng)"
proof -
  let ?B = "lower_bound (Trees s) (fst Rng)" and ?E = "lower_bound (Trees s) (snd Rng)"
  from assms have
    "bind (foldLoop (Trees s) N ?B ?E (Store s)) (\<lambda>st.
       Inr (s\<lparr>Store := st(N := (st N)\<lparr>Original := True,
                                       CanModify := spelledForExpanded (Arena s) Rng\<rparr>),
               Trees := map_insert (fst Rng, N) (erase ?B ?E (Trees s))\<rparr>)) = Inr s'"
    by (simp add: foldChildren_def Let_def split: if_splits)
  then obtain st where
    loop: "foldLoop (Trees s) N ?B ?E (Store s) = Inr st"
    and s': "Inr (s\<lparr>Store := st(N := (st N)\<lparr>Original := True,
                                            CanModify := spelledForExpanded (Arena s) Rng\<rparr>),
                    Trees := map_insert (fst Rng, N) (erase ?B ?E (Trees s))\<rparr>)
              = (Inr s' :: error + TreeBuilder)"
    by (rule bindE)
  have "?E \<le> length (Trees s)" by (rule lower_bound_le)
  from foldLoop_run [OF this, of N ?B "Store s"] loop
  have BE: "?B \<le> ?E"
    and st: "st = foldStore N (rev (map snd (take (?E - ?B) (drop ?B (Trees s))))) (Store s)"
    by (simp_all add: fold_foldStep split: if_splits)
  show thesis
  proof (rule that [of "rev (map snd (take (?E - ?B) (drop ?B (Trees s))))"])
    show "s' = s\<lparr>Store := (foldStore N (rev (map snd (take (?E - ?B) (drop ?B (Trees s))))) (Store s))
                     (N := (foldStore N (rev (map snd (take (?E - ?B) (drop ?B (Trees s))))) (Store s) N)
                             \<lparr>Original := True, CanModify := spelledForExpanded (Arena s) Rng\<rparr>),
           Trees := map_insert (fst Rng, N) (erase ?B ?E (Trees s))\<rparr>"
      using s' st by simp
    show "?B \<le> ?E" by (rule BE)
  qed
qed


lemma foldChildren_grows:
  assumes "foldChildren Rng N s = Inr s'"
  shows "grows s [] s'" and "Nodes s' = Nodes s" and "NNSNodes s' = NNSNodes s"
    and "Kind (Store s' n) = Kind (Store s n)"
    and "Role (Store s n) \<noteq> Detached \<Longrightarrow> Role (Store s' n) = Role (Store s n)"
proof -
  from assms obtain xs where
    s': "s' = s\<lparr>Store := (foldStore N xs (Store s))
                     (N := (foldStore N xs (Store s) N)
                             \<lparr>Original := True, CanModify := spelledForExpanded (Arena s) Rng\<rparr>),
           Trees := map_insert (fst Rng, N)
                      (erase (lower_bound (Trees s) (fst Rng)) (lower_bound (Trees s) (snd Rng))
                         (Trees s))\<rparr>"
    by (rule foldChildren_success)
  show "grows s [] s'" unfolding s' by (simp add: grows_def foldStore_def)
  show "Nodes s' = Nodes s" unfolding s' by simp
  show "NNSNodes s' = NNSNodes s" unfolding s' by simp
  show "Kind (Store s' n) = Kind (Store s n)" unfolding s' by (simp add: foldStore_def)
  show "Role (Store s n) \<noteq> Detached \<Longrightarrow> Role (Store s' n) = Role (Store s n)"
    unfolding s' by (auto simp add: foldStore_def)
qed

lemma foldNode_grows:
  assumes "foldNode Rng N From s = Inr s'"
  shows "grows s [] s'"
    and "Nodes s' = (case From of None \<Rightarrow> Nodes s | Some P \<Rightarrow> (Nodes s)(P \<mapsto> N))"
    and "NNSNodes s' = NNSNodes s"
    and "Kind (Store s' n) = Kind (Store s n)"
    and "Role (Store s n) \<noteq> Detached \<Longrightarrow> Role (Store s' n) = Role (Store s n)"
proof -
  from assms have "bind (foldChildren Rng N s) (\<lambda>s1.
      case From of None \<Rightarrow> Inr s1 | Some P \<Rightarrow> Mapping_add P N s1) = Inr s'"
    by (simp add: foldNode_def)
  then obtain s1 where f: "foldChildren Rng N s = Inr s1"
    and m: "(case From of None \<Rightarrow> Inr s1 | Some P \<Rightarrow> Mapping_add P N s1) = Inr s'"
    by (rule bindE)
  note F = foldChildren_grows [OF f]
  have G: "grows s1 [] s' \<and> Store s' = Store s1 \<and> NNSNodes s' = NNSNodes s1
      \<and> Nodes s' = (case From of None \<Rightarrow> Nodes s1 | Some P \<Rightarrow> (Nodes s1)(P \<mapsto> N))"
  proof (cases From)
    case None
    then show ?thesis using m by (simp add: grows_refl)
  next
    case (Some P)
    then have "Mapping_add P N s1 = Inr s'" using m by simp
    from Mapping_add_grows [OF this] show ?thesis using Some by simp
  qed
  show "grows s [] s'" using grows_trans [OF F(1), of "[]" s'] G by simp
  show "Nodes s' = (case From of None \<Rightarrow> Nodes s | Some P \<Rightarrow> (Nodes s)(P \<mapsto> N))"
    using G F(2) by (cases From) simp_all
  show "NNSNodes s' = NNSNodes s" using G F(3) by simp
  show "Kind (Store s' n) = Kind (Store s n)" using G F(4) by simp
  show "Role (Store s n) \<noteq> Detached \<Longrightarrow> Role (Store s' n) = Role (Store s n)"
    using G F(5) by simp
qed


lemma markChildToken_grows:
  assumes "markChildToken Loc R s = Inr s'"
  shows "grows s [] s'" and "Trees s' = Trees s" and "Nodes s' = Nodes s"
    and "NNSNodes s' = NNSNodes s"
proof -
  have "s' = s \<or> (\<exists>t. assignRole (t, Suc t) R s = Inr s')"
    using assms
    by (auto simp: markChildToken_def findToken_def bind_def split: if_splits option.splits)
  then show "grows s [] s'" and "Trees s' = Trees s" and "Nodes s' = Nodes s"
    and "NNSNodes s' = NNSNodes s"
    using assignRole_grows grows_refl by auto
qed

lemma assignRole_marks:
  assumes "assignRole (t, e) R s = Inr s'"
  shows "\<exists>n. (t, n) \<in> set (Trees s) \<and> Role (Store s n) = Detached \<and> Role (Store s' n) = R"
proof -
  let ?It = "lower_bound (Trees s) t"
  from assms have lt: "?It < length (Trees s)" and k: "fst (Trees s ! ?It) = t"
    and d: "Role (Store s (snd (Trees s ! ?It))) = Detached"
    and s': "s' = s\<lparr>Store := setRole_store (snd (Trees s ! ?It)) R (Store s)\<rparr>"
    using lower_bound_le [of "Trees s" t]
    by (auto simp: assignRole_def Let_def split: if_splits)
  have "(t, snd (Trees s ! ?It)) \<in> set (Trees s)"
    using lt k by (metis nth_mem prod.collapse)
  then show ?thesis using d s' by (auto simp: setRole_store_def)
qed

lemma markChildToken_marks:
  assumes "markChildToken Loc R s = Inr s'" and "isValid Loc"
  shows "\<exists>t n. LocationToToken s Loc = Some t \<and> (t, n) \<in> set (Trees s)
           \<and> Role (Store s n) = Detached \<and> Role (Store s' n) = R"
proof -
  from assms obtain t where t: "LocationToToken s Loc = Some t"
    and a: "assignRole (t, Suc t) R s = Inr s'"
    by (auto simp: markChildToken_def findToken_def bind_def isValid_def isInvalid_def
          split: if_splits option.splits)
  from assignRole_marks [OF a] t show ?thesis by blast
qed

subsection \<open>The this expression\<close>

text \<open>
  Claim C10. For an implicit \<open>this\<close> the handler returns the builder as it was: no node, no
  role, no fold. For a written \<open>this\<close>, when the handler succeeds on a builder whose pending
  nodes are allocated, exactly one node was allocated, a \<open>ThisExpression\<close>, it is recorded
  for the expression, and the node pending for the token at the location of \<open>this\<close> has the
  role \<open>IntroducerKeyword\<close>.
\<close>

theorem C10_this_expression:
  "(isImplicit S \<longrightarrow> WalkUpFromCXXThisExpr S s = Inr (True, s))
   \<and> (\<not> isImplicit S \<and> WalkUpFromCXXThisExpr S s = Inr (ok, s')
        \<and> (\<forall>e \<in> set (Trees s). snd e < NextFree s)
      \<longrightarrow> NextFree s' = Suc (NextFree s)
        \<and> Kind (Store s' (NextFree s)) = ThisExpression
        \<and> Nodes s' = (Nodes s)(StmtPtr (stmtPtr S) \<mapsto> NextFree s)
        \<and> (isValid (This_getLocation S) \<longrightarrow>
             (\<exists>t n. LocationToToken s (This_getLocation S) = Some t
                \<and> (t, n) \<in> set (Trees s)
                \<and> Role (Store s n) = Detached
                \<and> Role (Store s' n) = IntroducerKeyword)))"
proof (intro conjI impI)
  assume "isImplicit S"
  then show "WalkUpFromCXXThisExpr S s = Inr (True, s)"
    by (simp add: WalkUpFromCXXThisExpr_def)
next
  assume A: "\<not> isImplicit S \<and> WalkUpFromCXXThisExpr S s = Inr (ok, s')
        \<and> (\<forall>e \<in> set (Trees s). snd e < NextFree s)"
  then have ni: "\<not> isImplicit S" and W: "WalkUpFromCXXThisExpr S s = Inr (ok, s')"
    and alloc: "\<forall>e \<in> set (Trees s). snd e < NextFree s"
    by blast+
  from W ni have "bind (markChildToken (This_getLocation S) IntroducerKeyword s) (\<lambda>s1.
         let (New, s2) = allocate ThisExpression s1 in
         bind (getExprRange s2 S) (\<lambda>Rng.
         bind (foldNode Rng New (Some (StmtPtr (stmtPtr S))) s2) (\<lambda>s3.
           Inr (True, s3)))) = Inr (ok, s')"
    by (simp add: WalkUpFromCXXThisExpr_def)
  then obtain s1 where m: "markChildToken (This_getLocation S) IntroducerKeyword s = Inr s1"
    and r1: "(let (New, s2) = allocate ThisExpression s1 in
         bind (getExprRange s2 S) (\<lambda>Rng.
         bind (foldNode Rng New (Some (StmtPtr (stmtPtr S))) s2) (\<lambda>s3.
           Inr (True, s3)))) = Inr (ok, s')"
    by (rule bindE)
  obtain New s2 where al: "allocate ThisExpression s1 = (New, s2)"
    by (cases "allocate ThisExpression s1")
  from r1 al obtain Rng where
    r2: "bind (foldNode Rng New (Some (StmtPtr (stmtPtr S))) s2) (\<lambda>s3. Inr (True, s3))
          = Inr (ok, s')"
    by (auto elim: bindE)
  then obtain s3 where f: "foldNode Rng New (Some (StmtPtr (stmtPtr S))) s2 = Inr s3"
    and "Inr (True, s3) = (Inr (ok, s') :: error + bool \<times> TreeBuilder)"
    by (rule bindE)
  then have s3: "s3 = s'" by simp
  note M = markChildToken_grows [OF m]
  note AL = allocate_grows [OF al]
  note F = foldNode_grows [OF f, unfolded s3]
  have G: "grows s ([] @ [ThisExpression] @ []) s'"
    by (intro grows_trans [OF M(1)] grows_trans [OF AL(2)] F(1))
  then have nf: "NextFree s' = Suc (NextFree s)" by (simp add: grows_def)
  have nf1: "NextFree s1 = NextFree s" using M(1) by (simp add: grows_def)
  show "NextFree s' = Suc (NextFree s)" by (rule nf)
  show "Kind (Store s' (NextFree s)) = ThisExpression"
    using G nf by (simp add: grows_def)
  show "Nodes s' = (Nodes s)(StmtPtr (stmtPtr S) \<mapsto> NextFree s)"
    using F(2) AL(1,4) M(3) nf1 by simp
  show "\<exists>t n. LocationToToken s (This_getLocation S) = Some t
                \<and> (t, n) \<in> set (Trees s)
                \<and> Role (Store s n) = Detached
                \<and> Role (Store s' n) = IntroducerKeyword"
    if v: "isValid (This_getLocation S)"
  proof -
    from markChildToken_marks [OF m v] obtain t n where
      t: "LocationToToken s (This_getLocation S) = Some t" and n: "(t, n) \<in> set (Trees s)"
      and d: "Role (Store s n) = Detached" and r: "Role (Store s1 n) = IntroducerKeyword"
      by blast
    have "n < NextFree s1" using alloc n nf1 by auto
    moreover have "grows s1 ([ThisExpression] @ []) s'"
      by (intro grows_trans [OF AL(2)] F(1))
    ultimately have "Role (Store s' n) = IntroducerKeyword"
      using r by (simp add: grows_def)
    then show ?thesis using t n d by blast
  qed
qed

lemmas eval_walk = WalkUpFromCXXThisExpr_def markChildToken_def assignRole_def lower_bound_def
  allocate_def getExprRange_def foldNode_def foldChildren_def Mapping_add_def erase_def
  setRole_store_def prependChildLowLevel_def newNode_def newLeaf_def Let_def

theorem C10_this_expression_witness:
  "WalkUpFromCXXThisExpr implicit_this (projr (TreeBuilder_init this_arena))
     = Inr (True, projr (TreeBuilder_init this_arena))
   \<and> (\<exists>s'. WalkUpFromCXXThisExpr explicit_this (projr (TreeBuilder_init this_arena))
             = Inr (True, s')
        \<and> NextFree s' = 3 \<and> Kind (Store s' 2) = ThisExpression
        \<and> Nodes s' (StmtPtr 5) = Some 2
        \<and> Role (Store s' 0) = IntroducerKeyword)"
proof -
  let ?s = "projr (TreeBuilder_init this_arena)"
  have T: "Trees ?s = [(0, 0), (1, 1)]" "NextFree ?s = 2" "LocationToToken ?s 1 = Some 0"
    by (simp_all add: eval_init this_arena_def upt_rec)
  obtain s' where W: "WalkUpFromCXXThisExpr explicit_this ?s = Inr (True, s')"
    by (simp add: eval_init eval_range eval_walk this_arena_def explicit_this_def upt_rec)
  have I: "isImplicit implicit_this" "\<not> isImplicit explicit_this"
    "isValid (This_getLocation explicit_this)" "stmtPtr explicit_this = 5"
    "This_getLocation explicit_this = 1"
    by (simp_all add: implicit_this_def explicit_this_def isValid_def)
  have 1: "WalkUpFromCXXThisExpr implicit_this ?s = Inr (True, ?s)"
    using C10_this_expression [of implicit_this ?s] I by simp
  have 2: "NextFree s' = 3 \<and> Kind (Store s' 2) = ThisExpression
        \<and> Nodes s' (StmtPtr 5) = Some 2
        \<and> Role (Store s' 0) = IntroducerKeyword"
    using C10_this_expression [of explicit_this ?s True s'] I W T by auto
  from 1 2 W show ?thesis by blast
qed

subsection \<open>Entries before a fold stay pending\<close>

lemma set_map_insert: "set T \<subseteq> set (map_insert kv T)"
  by (induction T) auto

lemma set_map_insert_sub: "set (map_insert kv T) \<subseteq> insert kv (set T)"
  by (induction T) auto

lemma sorted_map_insert:
  "sorted_wrt (<) (map fst T) \<Longrightarrow> sorted_wrt (<) (map fst (map_insert kv T))"
proof (induction T)
  case Nil
  then show ?case by simp
next
  case (Cons a T)
  have "\<forall>x \<in> set (map_insert kv T). x = kv \<or> x \<in> set T"
    using set_map_insert_sub [of kv T] by auto
  then show ?case using Cons by (auto simp: order.strict_trans)
qed

lemma sorted_erase:
  fixes T :: "(nat \<times> nat) list"
  assumes "sorted_wrt (<) (map fst T)" and "B \<le> E"
  shows "sorted_wrt (<) (map fst (erase B E T))"
proof -
  have "T = take B T @ take (E - B) (drop B T) @ drop E T"
    using assms(2) by (metis add_diff_inverse_nat append_take_drop_id drop_drop add.commute leD)
  then have "sorted_wrt (<) (map fst (take B T) @ map fst (take (E - B) (drop B T))
      @ map fst (drop E T))"
    using assms(1) by (metis map_append)
  then show ?thesis
    by (auto simp: erase_def sorted_wrt_append)
qed

lemma in_takeWhile_sorted:
  fixes T :: "(nat \<times> nat) list"
  shows "sorted_wrt (<) (map fst T) \<Longrightarrow> x \<in> set T \<Longrightarrow> fst x < k
    \<Longrightarrow> x \<in> set (takeWhile (\<lambda>e. fst e < k) T)"
proof (induction T)
  case Nil
  then show ?case by simp
next
  case (Cons a T)
  show ?case
  proof (cases "x = a")
    case True
    then show ?thesis using Cons.prems by simp
  next
    case False
    then have xT: "x \<in> set T" using Cons.prems by simp
    then have "fst a < fst x" using Cons.prems(1) by auto
    then have "fst a < k" using Cons.prems(3) by simp
    moreover have "x \<in> set (takeWhile (\<lambda>e. fst e < k) T)"
      using Cons.IH Cons.prems xT by simp
    ultimately show ?thesis by simp
  qed
qed

lemma foldChildren_keeps:
  assumes f: "foldChildren (b, e) N s = Inr s'"
    and sorted: "sorted_wrt (<) (map fst (Trees s))"
    and mem: "(t, n) \<in> set (Trees s)" and lt: "t < b"
  shows "sorted_wrt (<) (map fst (Trees s'))" and "(t, n) \<in> set (Trees s')"
proof -
  let ?B = "lower_bound (Trees s) b" and ?E = "lower_bound (Trees s) e"
  from f obtain xs where
    s': "s' = s\<lparr>Store := (foldStore N xs (Store s))
                     (N := (foldStore N xs (Store s) N)
                             \<lparr>Original := True, CanModify := spelledForExpanded (Arena s) (b, e)\<rparr>),
           Trees := map_insert (fst (b, e), N)
                      (erase (lower_bound (Trees s) (fst (b, e)))
                         (lower_bound (Trees s) (snd (b, e))) (Trees s))\<rparr>"
    and BE: "lower_bound (Trees s) (fst (b, e)) \<le> lower_bound (Trees s) (snd (b, e))"
    by (rule foldChildren_success)
  have T': "Trees s' = map_insert (b, N) (erase ?B ?E (Trees s))"
    unfolding s' by simp
  have BE': "?B \<le> ?E" using BE by simp
  show "sorted_wrt (<) (map fst (Trees s'))"
    unfolding T' by (rule sorted_map_insert [OF sorted_erase [OF sorted BE']])
  have "(t, n) \<in> set (takeWhile (\<lambda>e. fst e < b) (Trees s))"
    using in_takeWhile_sorted [OF sorted mem] lt by simp
  then have "(t, n) \<in> set (take ?B (Trees s))"
    by (simp add: lower_bound_def takeWhile_eq_take [symmetric])
  then have "(t, n) \<in> set (erase ?B ?E (Trees s))"
    by (simp add: erase_def)
  then show "(t, n) \<in> set (Trees s')"
    unfolding T' using set_map_insert by blast
qed

lemma assignRole_at:
  assumes a: "assignRole (t, e) R s = Inr s'"
    and sorted: "sorted_wrt (<) (map fst (Trees s))" and mem: "(t, n) \<in> set (Trees s)"
  shows "Role (Store s' n) = R"
proof -
  from assignRole_marks [OF a] obtain n' where
    n': "(t, n') \<in> set (Trees s)" and r: "Role (Store s' n') = R"
    by blast
  have "distinct (map fst (Trees s))"
    using sorted by (simp add: strict_sorted_iff)
  then have "n' = n" using n' mem by (rule eq_key_imp_eq_value)
  then show ?thesis using r by simp
qed

lemma getRange2_fst:
  "getRange2 s F L = Inr (b, e) \<Longrightarrow> LocationToToken s F = Some b"
  by (auto simp: getRange2_def findToken_def bind_def isValid_def isInvalid_def
        split: if_splits option.splits)

lemma getRange_fst:
  "getRange s Rng = Inr (b, e) \<Longrightarrow> LocationToToken s (getBegin Rng) = Some b"
  by (auto simp: getRange_def dest: getRange2_fst split: if_splits)

subsection \<open>Folds in a forest with ascending keys\<close>

lemma takeWhile_sorted:
  fixes T :: "(nat \<times> nat) list"
  shows "sorted_wrt (<) (map fst T)
    \<Longrightarrow> takeWhile (\<lambda>x. fst x < k) T = filter (\<lambda>x. fst x < k) T"
proof (induction T)
  case Nil
  then show ?case by simp
next
  case (Cons a T)
  show ?case
  proof (cases "fst a < k")
    case True
    then show ?thesis using Cons by simp
  next
    case False
    then have "\<forall>x \<in> set T. \<not> fst x < k" using Cons.prems by auto
    then have "filter (\<lambda>x. fst x < k) T = []" by (simp add: filter_empty_conv)
    then show ?thesis using False by simp
  qed
qed

lemma dropWhile_sorted:
  fixes T :: "(nat \<times> nat) list"
  shows "sorted_wrt (<) (map fst T)
    \<Longrightarrow> dropWhile (\<lambda>x. fst x < k) T = filter (\<lambda>x. k \<le> fst x) T"
proof (induction T)
  case Nil
  then show ?case by simp
next
  case (Cons a T)
  show ?case
  proof (cases "fst a < k")
    case True
    then show ?thesis using Cons by simp
  next
    case False
    then have "\<forall>x \<in> set T. k \<le> fst x" using Cons.prems by auto
    then have "filter (\<lambda>x. k \<le> fst x) T = T" by (simp add: filter_id_conv)
    then show ?thesis using False by simp
  qed
qed

lemma take_lower_bound:
  fixes T :: "(nat \<times> nat) list"
  assumes "sorted_wrt (<) (map fst T)"
  shows "take (lower_bound T k) T = filter (\<lambda>x. fst x < k) T"
    and "drop (lower_bound T k) T = filter (\<lambda>x. k \<le> fst x) T"
proof -
  have "take (lower_bound T k) T = takeWhile (\<lambda>x. fst x < k) T"
    unfolding lower_bound_def by (simp add: takeWhile_eq_take [symmetric])
  then show "take (lower_bound T k) T = filter (\<lambda>x. fst x < k) T"
    using takeWhile_sorted [OF assms] by simp
  have "drop (lower_bound T k) T = dropWhile (\<lambda>x. fst x < k) T"
    unfolding lower_bound_def by (simp add: dropWhile_eq_drop [symmetric])
  then show "drop (lower_bound T k) T = filter (\<lambda>x. k \<le> fst x) T"
    using dropWhile_sorted [OF assms] by simp
qed

lemma lower_bound_mono:
  fixes T :: "(nat \<times> nat) list"
  assumes "sorted_wrt (<) (map fst T)" and "e \<le> b"
  shows "lower_bound T e \<le> lower_bound T b"
proof -
  have "lower_bound T k = length (filter (\<lambda>x. fst x < k) T)" for k
    unfolding lower_bound_def using takeWhile_sorted [OF assms(1)] by simp
  moreover have "filter (\<lambda>x. fst x < e) T = filter (\<lambda>x. fst x < e) (filter (\<lambda>x. fst x < b) T)"
    using assms(2) by (auto intro!: filter_cong)
  ultimately show ?thesis by (metis length_filter_le)
qed

lemma slice_sorted:
  fixes T :: "(nat \<times> nat) list"
  assumes sorted: "sorted_wrt (<) (map fst T)"
    and BE: "lower_bound T b \<le> lower_bound T e"
  shows "take (lower_bound T e - lower_bound T b) (drop (lower_bound T b) T) = pendingIn (b, e) T"
    and "erase (lower_bound T b) (lower_bound T e) T
          = filter (\<lambda>x. \<not> (b \<le> fst x \<and> fst x < e)) T"
proof -
  let ?B = "lower_bound T b" and ?E = "lower_bound T e"
  have tk: "take (?E - ?B) (drop ?B T) = drop ?B (take ?E T)"
    by (simp add: drop_take)
  show "take (?E - ?B) (drop ?B T) = pendingIn (b, e) T"
  proof (cases "b \<le> e")
    case True
    let ?F = "filter (\<lambda>x. fst x < e) T"
    have sF: "sorted_wrt (<) (map fst ?F)"
      using sorted by (metis sorted_wrt_filter sorted_wrt_map)
    have 1: "take ?E T = ?F"
      using take_lower_bound(1) [OF sorted] by simp
    have "filter (\<lambda>x. fst x < b) ?F = filter (\<lambda>x. fst x < b) T"
      using True by (auto intro!: filter_cong)
    then have 2: "lower_bound ?F b = ?B"
      using takeWhile_sorted [OF sorted, of b] takeWhile_sorted [OF sF, of b]
      by (simp add: lower_bound_def)
    have 3: "drop (lower_bound ?F b) ?F = filter (\<lambda>x. b \<le> fst x) ?F"
      by (rule take_lower_bound(2) [OF sF])
    have 4: "filter (\<lambda>x. b \<le> fst x) ?F = pendingIn (b, e) T"
      by (auto simp: pendingIn_def intro!: filter_cong)
    have "drop ?B (take ?E T) = pendingIn (b, e) T"
      using 3 unfolding 1 2 4 .
    then show ?thesis using tk by simp
  next
    case False
    then have "?E \<le> ?B" using lower_bound_mono [OF sorted, of e b] by simp
    then have "take (?E - ?B) (drop ?B T) = []" by simp
    moreover have "pendingIn (b, e) T = []"
      using False by (auto simp: pendingIn_def filter_empty_conv)
    ultimately show ?thesis by simp
  qed
  show "erase ?B ?E T = filter (\<lambda>x. \<not> (b \<le> fst x \<and> fst x < e)) T"
  proof (cases "b \<le> e")
    case True
    have "erase ?B ?E T = filter (\<lambda>x. fst x < b) T @ filter (\<lambda>x. e \<le> fst x) T"
      unfolding erase_def using take_lower_bound [OF sorted] by simp
    also have "\<dots> = filter (\<lambda>x. \<not> (b \<le> fst x \<and> fst x < e)) T"
      using sorted True
    proof (induction T)
      case Nil
      then show ?case by simp
    next
      case (Cons a T)
      have "fst a < b \<Longrightarrow> \<not> e \<le> fst a" using Cons.prems(2) by simp
      moreover have "\<not> fst a < b \<Longrightarrow> filter (\<lambda>x. fst x < b) T = []"
        using Cons.prems(1) by (auto simp: filter_empty_conv)
      ultimately show ?case using Cons by auto
    qed
    finally show ?thesis .
  next
    case False
    then have "?E \<le> ?B" using lower_bound_mono [OF sorted, of e b] by simp
    with BE have "?E = ?B" by simp
    then have "erase ?B ?E T = T" by (simp add: erase_def)
    moreover have "filter (\<lambda>x. \<not> (b \<le> fst x \<and> fst x < e)) T = T"
      using False by (auto simp: filter_id_conv)
    ultimately show ?thesis by simp
  qed
qed


lemma foldChildren_sorted:
  assumes f: "foldChildren (b, e) N s = Inr s'"
    and sorted: "sorted_wrt (<) (map fst (Trees s))"
  shows "Trees s' = foldInto (b, e) N (Trees s)"
    and "children (Store s' n)
          = (if n = N then map snd (pendingIn (b, e) (Trees s)) else children (Store s n))"
    and "sorted_wrt (<) (map fst (Trees s'))"
proof -
  let ?B = "lower_bound (Trees s) b" and ?E = "lower_bound (Trees s) e"
  from f have childless: "children (Store s N) = []"
    by (simp add: foldChildren_def split: if_splits)
  from f have
    "bind (foldLoop (Trees s) N ?B ?E (Store s)) (\<lambda>st.
       Inr (s\<lparr>Store := st(N := (st N)\<lparr>Original := True,
                                       CanModify := spelledForExpanded (Arena s) (b, e)\<rparr>),
               Trees := map_insert (b, N) (erase ?B ?E (Trees s))\<rparr>)) = Inr s'"
    by (simp add: foldChildren_def Let_def split: if_splits)
  then obtain st where
    loop: "foldLoop (Trees s) N ?B ?E (Store s) = Inr st"
    and s': "Inr (s\<lparr>Store := st(N := (st N)\<lparr>Original := True,
                                            CanModify := spelledForExpanded (Arena s) (b, e)\<rparr>),
                    Trees := map_insert (b, N) (erase ?B ?E (Trees s))\<rparr>)
              = (Inr s' :: error + TreeBuilder)"
    by (rule bindE)
  have "?E \<le> length (Trees s)" by (rule lower_bound_le)
  from foldLoop_run [OF this, of N ?B "Store s"] loop
  have BE: "?B \<le> ?E"
    and st: "st = foldStore N (rev (map snd (take (?E - ?B) (drop ?B (Trees s))))) (Store s)"
    by (simp_all add: fold_foldStep split: if_splits)
  note S = slice_sorted [OF sorted BE]
  from s' have T: "Trees s' = map_insert (b, N) (erase ?B ?E (Trees s))"
    and St: "Store s' = st(N := (st N)\<lparr>Original := True,
                                CanModify := spelledForExpanded (Arena s) (b, e)\<rparr>)"
    by auto
  show "Trees s' = foldInto (b, e) N (Trees s)"
    unfolding T S(2) by (simp add: foldInto_def)
  show "children (Store s' n)
          = (if n = N then map snd (pendingIn (b, e) (Trees s)) else children (Store s n))"
    unfolding St st S(1) using childless by (simp add: foldStore_def)
  show "sorted_wrt (<) (map fst (Trees s'))"
    unfolding T by (intro sorted_map_insert sorted_erase sorted BE)
qed

lemma foldNode_sorted:
  assumes f: "foldNode (b, e) N From s = Inr s'"
    and sorted: "sorted_wrt (<) (map fst (Trees s))"
  shows "Trees s' = foldInto (b, e) N (Trees s)"
    and "children (Store s' n)
          = (if n = N then map snd (pendingIn (b, e) (Trees s)) else children (Store s n))"
    and "sorted_wrt (<) (map fst (Trees s'))"
proof -
  from f have "bind (foldChildren (b, e) N s) (\<lambda>s1.
      case From of None \<Rightarrow> Inr s1 | Some P \<Rightarrow> Mapping_add P N s1) = Inr s'"
    by (simp add: foldNode_def)
  then obtain s1 where f1: "foldChildren (b, e) N s = Inr s1"
    and m: "(case From of None \<Rightarrow> Inr s1 | Some P \<Rightarrow> Mapping_add P N s1) = Inr s'"
    by (rule bindE)
  have "Trees s' = Trees s1 \<and> Store s' = Store s1"
  proof (cases From)
    case None
    then show ?thesis using m by simp
  next
    case (Some P)
    then show ?thesis using m Mapping_add_grows(2,5) [of P N s1 s'] by simp
  qed
  then show "Trees s' = foldInto (b, e) N (Trees s)"
    and "children (Store s' n)
          = (if n = N then map snd (pendingIn (b, e) (Trees s)) else children (Store s n))"
    and "sorted_wrt (<) (map fst (Trees s'))"
    using foldChildren_sorted [OF f1 sorted] by simp_all
qed

lemma setRole_children:
  "setRole N R s = Inr s' \<Longrightarrow> children (Store s' n) = children (Store s n)"
  by (auto simp: setRole_def setRole_store_def split: if_splits)

lemma assignRole_children:
  "assignRole Rng R s = Inr s' \<Longrightarrow> children (Store s' n) = children (Store s n)"
  by (auto simp: assignRole_def setRole_store_def Let_def split: if_splits)

lemma markChildToken_children:
  assumes "markChildToken Loc R s = Inr s'"
  shows "children (Store s' n) = children (Store s n)"
proof -
  have "s' = s \<or> (\<exists>t. assignRole (t, Suc t) R s = Inr s')"
    using assms
    by (auto simp: markChildToken_def findToken_def bind_def split: if_splits option.splits)
  then show ?thesis using assignRole_children [of _ R s s' n] by auto
qed

lemma markExprChild_children:
  assumes "markExprChild Child R s = Inr s'"
  shows "children (Store s' n) = children (Store s n)"
proof -
  have "s' = s \<or> (\<exists>N. setRole N R s = Inr s')"
    using assms by (auto simp: markExprChild_def split: option.splits)
  then show ?thesis using setRole_children [of _ R s s' n] by auto
qed

lemma markChild_NNS_children:
  assumes "markChild_NNS Q R s = Inr s'"
  shows "children (Store s' n) = children (Store s n)"
proof -
  have "\<exists>N. setRole N R s = Inr s'"
    using assms by (auto simp: markChild_NNS_def split: option.splits)
  then show ?thesis using setRole_children [of _ R s s' n] by auto
qed

lemma allocate_children:
  "allocate K s = (N, s')
    \<Longrightarrow> children (Store s' n) = (if n = N then [] else children (Store s n))"
  by (auto simp: allocate_def newNode_def)

lemma sorted_filter_keys:
  "sorted_wrt (<) (map fst T) \<Longrightarrow> sorted_wrt (<) (map fst (filter P T))"
  by (simp add: sorted_wrt_map sorted_wrt_filter)

lemma foldInto_sorted:
  fixes T :: "(nat \<times> nat) list"
  assumes "b < e" and that: "sorted_wrt (<) (map fst T)"
  shows "foldInto (b, e) N T
    = filter (\<lambda>x. fst x < b) (filter (\<lambda>x. \<not> (b \<le> fst x \<and> fst x < e)) T) @ (b, N)
        # filter (\<lambda>x. b < fst x) (filter (\<lambda>x. \<not> (b \<le> fst x \<and> fst x < e)) T)"
proof -
  let ?F = "filter (\<lambda>x. \<not> (b \<le> fst x \<and> fst x < e)) T"
  have sF: "sorted_wrt (<) (map fst ?F)"
    using that by (rule sorted_filter_keys)
  have "?F = take (lower_bound ?F b) ?F @ drop (lower_bound ?F b) ?F" by simp
  also have "\<dots> = filter (\<lambda>x. fst x < b) ?F @ filter (\<lambda>x. b \<le> fst x) ?F"
    using take_lower_bound [OF sF, of b] by simp
  also have "filter (\<lambda>x. b \<le> fst x) ?F = filter (\<lambda>x. b < fst x) ?F"
    using assms(1) by (auto intro!: filter_cong)
  finally have F: "?F = filter (\<lambda>x. fst x < b) ?F @ filter (\<lambda>x. b < fst x) ?F" .
  have "map_insert (b, N) (filter (\<lambda>x. fst x < b) ?F @ filter (\<lambda>x. b < fst x) ?F)
      = filter (\<lambda>x. fst x < b) ?F @ (b, N) # filter (\<lambda>x. b < fst x) ?F"
    by (rule map_insert_mid) simp_all
  moreover have "map_insert (b, N) ?F
      = map_insert (b, N) (filter (\<lambda>x. fst x < b) ?F @ filter (\<lambda>x. b < fst x) ?F)"
    by (rule arg_cong [OF F])
  ultimately show ?thesis unfolding foldInto_def fst_conv snd_conv by (rule trans [rotated])
qed

lemma foldInto_parts:
  fixes T :: "(nat \<times> nat) list"
  assumes "sorted_wrt (<) (map fst T)" and "b < e"
  shows "foldInto (b, e) N T
    = filter (\<lambda>x. fst x < b) T @ (b, N) # filter (\<lambda>x. e \<le> fst x) T"
proof -
  have 1: "filter (\<lambda>x. fst x < b) (filter (\<lambda>x. \<not> (b \<le> fst x \<and> fst x < e)) T)
      = filter (\<lambda>x. fst x < b) T"
    using assms(2) by (auto intro!: filter_cong)
  have 2: "filter (\<lambda>x. b < fst x) (filter (\<lambda>x. \<not> (b \<le> fst x \<and> fst x < e)) T)
      = filter (\<lambda>x. e \<le> fst x) T"
    using assms(2) by (auto intro!: filter_cong)
  show ?thesis using foldInto_sorted [OF assms(2,1), of N] unfolding 1 2 .
qed

lemma sorted_foldInto:
  "sorted_wrt (<) (map fst T) \<Longrightarrow> sorted_wrt (<) (map fst (foldInto Rng N T))"
  unfolding foldInto_def
  by (rule sorted_map_insert) (rule sorted_filter_keys)

lemma foldInto_foldInto:
  fixes T :: "(nat \<times> nat) list"
  assumes "sorted_wrt (<) (map fst T)" and "b \<le> b'" and "b' < e"
  shows "foldInto (b, e) N (foldInto (b', e) N' T) = foldInto (b, e) N T"
proof -
  have be: "b < e" using assms by simp
  have 1: "filter (\<lambda>x. fst x < b) (filter (\<lambda>x. fst x < b') T) = filter (\<lambda>x. fst x < b) T"
    using assms(2) by (auto intro!: filter_cong)
  have 2: "filter (\<lambda>x. e \<le> fst x) (filter (\<lambda>x. fst x < b') T) = []"
    using assms(3) by (auto simp: filter_empty_conv)
  have 3: "filter (\<lambda>x. fst x < b) (filter (\<lambda>x. e \<le> fst x) T) = []"
    using be by (auto simp: filter_empty_conv)
  show ?thesis
    unfolding foldInto_parts [OF assms(1,3)]
      foldInto_parts [OF sorted_foldInto [OF assms(1), of "(b', e)" N'] be, unfolded
        foldInto_parts [OF assms(1,3)]]
      foldInto_parts [OF assms(1) be]
    using assms(2,3) be by (simp add: 1 2 3 del: filter_filter)
qed

lemma pendingIn_foldInto:
  fixes T :: "(nat \<times> nat) list"
  assumes "sorted_wrt (<) (map fst T)" and "b \<le> b'" and "b' < e"
  shows "pendingIn (b, e) (foldInto (b', e) N' T) = pendingIn (b, b') T @ [(b', N')]"
proof -
  have 1: "filter (\<lambda>x. b \<le> fst x \<and> fst x < e) (filter (\<lambda>x. fst x < b') T)
      = filter (\<lambda>x. b \<le> fst x \<and> fst x < b') T"
    using assms(3) by (auto intro!: filter_cong)
  have 2: "filter (\<lambda>x. b \<le> fst x \<and> fst x < e) (filter (\<lambda>x. e \<le> fst x) T) = []"
    by (auto simp: filter_empty_conv)
  show ?thesis
    unfolding foldInto_parts [OF assms(1,3)] pendingIn_def fst_conv snd_conv
    using assms(2,3) by (simp add: 1 2 del: filter_filter)
qed

lemma range_frame:
  assumes A: "Arena s' = Arena s" and L: "LocationToToken s' = LocationToToken s"
  shows "getRange2 s' x y = getRange2 s x y" and "getRange s' Rng = getRange s Rng"
    and "getExprRange s' E = getExprRange s E"
    and "DeclsWithoutSemicolons s' = DeclsWithoutSemicolons s
          \<Longrightarrow> getDeclarationRange s' D = getDeclarationRange s D"
proof -
  have t: "tokenAt s' i = tokenAt s i" for i by (simp add: tokenAt_def A)
  have b: "ArrayRef_back s' Tokens = ArrayRef_back s Tokens" for Tokens
    by (simp add: ArrayRef_back_def t)
  have w: "withTrailingSemicolon s' Tokens = withTrailingSemicolon s Tokens" for Tokens
    by (simp only: withTrailingSemicolon_def t b)
  have f: "findToken s' l = findToken s l" for l by (simp only: findToken_def L)
  show r2: "getRange2 s' x y = getRange2 s x y" for x y by (simp only: getRange2_def f A)
  show r: "getRange s' Rng = getRange s Rng" for Rng by (simp only: getRange_def r2)
  show "getExprRange s' E = getExprRange s E" by (simp only: getExprRange_def r)
  show "getDeclarationRange s' D = getDeclarationRange s D"
    if d: "DeclsWithoutSemicolons s' = DeclsWithoutSemicolons s"
  proof -
    have m: "maybeAppendSemicolon s' Tokens D = maybeAppendSemicolon s Tokens D" for Tokens
      by (simp only: maybeAppendSemicolon_def w d)
    show ?thesis by (simp only: getDeclarationRange_def r r2 m)
  qed
qed

lemma getRange2_snd:
  "getRange2 s F L = Inr (b, e) \<Longrightarrow> \<exists>l. LocationToToken s L = Some l \<and> e = Suc l"
  by (auto simp: getRange2_def findToken_def bind_def isValid_def isInvalid_def
        split: if_splits option.splits)

lemma getRange_snd:
  "getRange s Rng = Inr (b, e) \<Longrightarrow> \<exists>l. LocationToToken s (getEnd Rng) = Some l \<and> e = Suc l"
  by (auto simp: getRange_def dest: getRange2_snd split: if_splits)

subsection \<open>Id-expressions and member expressions\<close>

lemma foldNode_keeps:
  assumes f: "foldNode (b, e) N From s = Inr s'"
    and sorted: "sorted_wrt (<) (map fst (Trees s))"
    and mem: "(t, n) \<in> set (Trees s)" and lt: "t < b"
  shows "sorted_wrt (<) (map fst (Trees s'))" and "(t, n) \<in> set (Trees s')"
proof -
  from f have "bind (foldChildren (b, e) N s) (\<lambda>s1.
      case From of None \<Rightarrow> Inr s1 | Some P \<Rightarrow> Mapping_add P N s1) = Inr s'"
    by (simp add: foldNode_def)
  then obtain s1 where f1: "foldChildren (b, e) N s = Inr s1"
    and m: "(case From of None \<Rightarrow> Inr s1 | Some P \<Rightarrow> Mapping_add P N s1) = Inr s'"
    by (rule bindE)
  have "Trees s' = Trees s1"
  proof (cases From)
    case None
    then show ?thesis using m by simp
  next
    case (Some P)
    then have "Mapping_add P N s1 = Inr s'" using m by simp
    then show ?thesis by (rule Mapping_add_grows(2))
  qed
  then show "sorted_wrt (<) (map fst (Trees s'))" and "(t, n) \<in> set (Trees s')"
    using foldChildren_keeps [OF f1 sorted mem lt] by simp_all
qed

lemma markChild_NNS_grows:
  assumes "markChild_NNS Q R s = Inr s'"
  shows "grows s [] s'" and "Trees s' = Trees s" and "Nodes s' = Nodes s"
proof -
  from assms obtain SN where "setRole SN R s = Inr s'"
    by (auto simp: markChild_NNS_def split: option.splits)
  from setRole_grows [OF this]
  show "grows s [] s'" and "Trees s' = Trees s" and "Nodes s' = Nodes s" by simp_all
qed

lemma qualifier_marks_grows:
  assumes "(case Q of
            None \<Rightarrow> Inr s
          | Some Q' \<Rightarrow>
              bind (markChild_NNS Q' IdExpression_qualifier s) (\<lambda>s'.
                if isValid TK then markChildToken TK TemplateKeyword s' else Inr s')) = Inr s1"
  shows "grows s [] s1" and "Trees s1 = Trees s" and "Nodes s1 = Nodes s"
proof -
  have "grows s [] s1 \<and> Trees s1 = Trees s \<and> Nodes s1 = Nodes s"
  proof (cases Q)
    case None
    then show ?thesis using assms by (simp add: grows_refl)
  next
    case (Some Q')
    then have "bind (markChild_NNS Q' IdExpression_qualifier s) (\<lambda>s'.
                if isValid TK then markChildToken TK TemplateKeyword s' else Inr s') = Inr s1"
      using assms by simp
    then obtain s0 where a: "markChild_NNS Q' IdExpression_qualifier s = Inr s0"
      and b: "(if isValid TK then markChildToken TK TemplateKeyword s0 else Inr s0) = Inr s1"
      by (rule bindE)
    note A = markChild_NNS_grows [OF a]
    show ?thesis
    proof (cases "isValid TK")
      case True
      then have "markChildToken TK TemplateKeyword s0 = Inr s1" using b by simp
      note B = markChildToken_grows [OF this]
      show ?thesis using grows_trans [OF A(1) B(1)] A B by simp
    next
      case False
      then show ?thesis using b A by simp
    qed
  qed
  then show "grows s [] s1" and "Trees s1 = Trees s" and "Nodes s1 = Nodes s" by simp_all
qed

lemma buildIdExpression_grows:
  assumes run: "buildIdExpression Q TK U From s = Inr (IdN, s')"
  shows "grows s [UnqualifiedId, IdExpression] s'"
    and "IdN = Suc (NextFree s)"
    and "Nodes s' = (case From of None \<Rightarrow> Nodes s | Some P \<Rightarrow> (Nodes s)(P \<mapsto> IdN))"
    and "sorted_wrt (<) (map fst (Trees s)) \<Longrightarrow> (t, n) \<in> set (Trees s)
          \<Longrightarrow> \<forall>b. LocationToToken s (getBegin U) = Some b \<longrightarrow> t < b
          \<Longrightarrow> \<forall>Q' b. Q = Some Q' \<and> LocationToToken s (NNS_getBeginLoc Q') = Some b \<longrightarrow> t < b
          \<Longrightarrow> sorted_wrt (<) (map fst (Trees s')) \<and> (t, n) \<in> set (Trees s')"
proof -
  let ?IdBegin = "case Q of Some Q' \<Rightarrow> NNS_getBeginLoc Q' | None \<Rightarrow> getBegin U"
  from run [unfolded buildIdExpression_def]
  obtain s1 where
    q: "(case Q of
            None \<Rightarrow> Inr s
          | Some Q' \<Rightarrow>
              bind (markChild_NNS Q' IdExpression_qualifier s) (\<lambda>s'.
                if isValid TK then markChildToken TK TemplateKeyword s' else Inr s')) = Inr s1"
    and r1: "(let (TheUnqualifiedId, s2) = allocate UnqualifiedId s1 in
      bind (getRange s2 U) (\<lambda>Rng.
      bind (foldNode Rng TheUnqualifiedId None s2) (\<lambda>s3.
      bind (markChild TheUnqualifiedId IdExpression_id s3) (\<lambda>s4.
        let IdExpressionBeginLoc = ?IdBegin;
            (TheIdExpression, s5) = allocate IdExpression s4 in
        bind (getRange2 s5 IdExpressionBeginLoc (getEnd U)) (\<lambda>Rng2.
        bind (foldNode Rng2 TheIdExpression From s5) (\<lambda>s6.
          Inr (TheIdExpression, s6))))))) = Inr (IdN, s')"
    by (rule bindE)
  obtain n1 s2 where al1: "allocate UnqualifiedId s1 = (n1, s2)"
    by (cases "allocate UnqualifiedId s1")
  from r1 al1 have "bind (getRange s2 U) (\<lambda>Rng.
      bind (foldNode Rng n1 None s2) (\<lambda>s3.
      bind (markChild n1 IdExpression_id s3) (\<lambda>s4.
        let IdExpressionBeginLoc = ?IdBegin;
            (TheIdExpression, s5) = allocate IdExpression s4 in
        bind (getRange2 s5 IdExpressionBeginLoc (getEnd U)) (\<lambda>Rng2.
        bind (foldNode Rng2 TheIdExpression From s5) (\<lambda>s6.
          Inr (TheIdExpression, s6)))))) = Inr (IdN, s')"
    by simp
  then obtain Rng where g1: "getRange s2 U = Inr Rng"
    and r2: "bind (foldNode Rng n1 None s2) (\<lambda>s3.
      bind (markChild n1 IdExpression_id s3) (\<lambda>s4.
        let IdExpressionBeginLoc = ?IdBegin;
            (TheIdExpression, s5) = allocate IdExpression s4 in
        bind (getRange2 s5 IdExpressionBeginLoc (getEnd U)) (\<lambda>Rng2.
        bind (foldNode Rng2 TheIdExpression From s5) (\<lambda>s6.
          Inr (TheIdExpression, s6))))) = Inr (IdN, s')"
    by (rule bindE)
  from r2 obtain s3 where f1: "foldNode Rng n1 None s2 = Inr s3"
    and r3: "bind (markChild n1 IdExpression_id s3) (\<lambda>s4.
        let IdExpressionBeginLoc = ?IdBegin;
            (TheIdExpression, s5) = allocate IdExpression s4 in
        bind (getRange2 s5 IdExpressionBeginLoc (getEnd U)) (\<lambda>Rng2.
        bind (foldNode Rng2 TheIdExpression From s5) (\<lambda>s6.
          Inr (TheIdExpression, s6)))) = Inr (IdN, s')"
    by (rule bindE)
  from r3 obtain s4 where m1: "markChild n1 IdExpression_id s3 = Inr s4"
    and r4: "(let IdExpressionBeginLoc = ?IdBegin;
            (TheIdExpression, s5) = allocate IdExpression s4 in
        bind (getRange2 s5 IdExpressionBeginLoc (getEnd U)) (\<lambda>Rng2.
        bind (foldNode Rng2 TheIdExpression From s5) (\<lambda>s6.
          Inr (TheIdExpression, s6)))) = Inr (IdN, s')"
    by (rule bindE)
  obtain n2 s5 where al2: "allocate IdExpression s4 = (n2, s5)"
    by (cases "allocate IdExpression s4")
  from r4 al2 have "bind (getRange2 s5 ?IdBegin (getEnd U)) (\<lambda>Rng2.
        bind (foldNode Rng2 n2 From s5) (\<lambda>s6. Inr (n2, s6))) = Inr (IdN, s')"
    by (simp add: Let_def)
  then obtain Rng2 where g2: "getRange2 s5 ?IdBegin (getEnd U) = Inr Rng2"
    and r5: "bind (foldNode Rng2 n2 From s5) (\<lambda>s6. Inr (n2, s6)) = Inr (IdN, s')"
    by (rule bindE)
  from r5 obtain s6 where f2: "foldNode Rng2 n2 From s5 = Inr s6"
    and "Inr (n2, s6) = (Inr (IdN, s') :: error + nat \<times> TreeBuilder)"
    by (rule bindE)
  then have fin: "IdN = n2" "s' = s6" by simp_all
  note Qm = qualifier_marks_grows [OF q]
  note A1 = allocate_grows [OF al1]
  note F1 = foldNode_grows [OF f1]
  note M1 = setRole_grows [OF m1 [unfolded markChild_def]]
  note A2 = allocate_grows [OF al2]
  note F2 = foldNode_grows [OF f2]
  have G4: "grows s ([] @ [UnqualifiedId] @ [] @ []) s4"
    by (intro grows_trans [OF Qm(1)] grows_trans [OF A1(2)] grows_trans [OF F1(1)] M1(1))
  have G6: "grows s4 ([IdExpression] @ []) s6"
    by (intro grows_trans [OF A2(2)] F2(1))
  from grows_trans [OF G4 G6]
  show "grows s [UnqualifiedId, IdExpression] s'" unfolding fin by simp
  have "NextFree s4 = Suc (NextFree s)" using G4 by (simp add: grows_def)
  then show "IdN = Suc (NextFree s)" using fin A2(1) by simp
  have "Nodes s5 = Nodes s"
    using Qm(3) A1(4) F1(2) M1(3) A2(4) by simp
  then show "Nodes s' = (case From of None \<Rightarrow> Nodes s | Some P \<Rightarrow> (Nodes s)(P \<mapsto> IdN))"
    using F2(2) fin by (cases From) simp_all
  show "sorted_wrt (<) (map fst (Trees s')) \<and> (t, n) \<in> set (Trees s')"
    if sorted: "sorted_wrt (<) (map fst (Trees s))" and mem: "(t, n) \<in> set (Trees s)"
      and u: "\<forall>b. LocationToToken s (getBegin U) = Some b \<longrightarrow> t < b"
      and qb: "\<forall>Q' b. Q = Some Q' \<and> LocationToToken s (NNS_getBeginLoc Q') = Some b \<longrightarrow> t < b"
  proof -
    have L2: "LocationToToken s2 = LocationToToken s"
      using Qm(1) A1(2) by (simp add: grows_def)
    have L5: "LocationToToken s5 = LocationToToken s"
      using G4 A2(2) by (simp add: grows_def)
    obtain b1 e1 where R1: "Rng = (b1, e1)" by (cases Rng)
    obtain b2 e2 where R2: "Rng2 = (b2, e2)" by (cases Rng2)
    have "LocationToToken s (getBegin U) = Some b1"
      using getRange_fst [OF g1 [unfolded R1]] L2 by simp
    then have lt1: "t < b1" using u by simp
    have "LocationToToken s ?IdBegin = Some b2"
      using getRange2_fst [OF g2 [unfolded R2]] L5 by simp
    then have lt2: "t < b2" using u qb by (cases Q) auto
    have T2: "Trees s2 = Trees s" using Qm(2) A1(3) by simp
    have K3: "sorted_wrt (<) (map fst (Trees s3))" "(t, n) \<in> set (Trees s3)"
      using foldNode_keeps [OF f1 [unfolded R1] _ _ lt1] sorted mem T2 by simp_all
    have T5: "Trees s5 = Trees s3" using M1(2) A2(3) by simp
    show ?thesis
      using foldNode_keeps [OF f2 [unfolded R2] _ _ lt2] K3 T5 fin by simp
  qed
qed


lemma markExprChild_marks:
  assumes "markExprChild (Some C) R s = Inr s'"
  shows "grows s [] s'" and "Trees s' = Trees s" and "Nodes s' = Nodes s"
    and "\<exists>nb. Nodes s (StmtPtr (IgnoreImplicit C)) = Some nb \<and> Role (Store s' nb) = R"
proof -
  from assms obtain nb where nb: "Nodes s (StmtPtr (IgnoreImplicit C)) = Some nb"
    and sr: "setRole nb R s = Inr s'"
    by (auto simp: markExprChild_def split: option.splits)
  from setRole_grows [OF sr] nb
  show "grows s [] s'" and "Trees s' = Trees s" and "Nodes s' = Nodes s"
    and "\<exists>nb. Nodes s (StmtPtr (IgnoreImplicit C)) = Some nb \<and> Role (Store s' nb) = R"
    by simp_all
qed

lemma grows_Role:
  "grows s ks s' \<Longrightarrow> n < NextFree s \<Longrightarrow> Role (Store s n) \<noteq> Detached
    \<Longrightarrow> Role (Store s' n) = Role (Store s n)"
  unfolding grows_def by blast

lemma grows_NextFree: "grows s ks s' \<Longrightarrow> NextFree s' = NextFree s + length ks"
  unfolding grows_def by blast

lemma grows_kinds:
  "grows s ks s' \<Longrightarrow> map (\<lambda>n. Kind (Store s' n)) [NextFree s..<NextFree s'] = ks"
  unfolding grows_def by blast

lemma grows_LocationToToken: "grows s ks s' \<Longrightarrow> LocationToToken s' = LocationToToken s"
  unfolding grows_def by blast

lemma qualifier_marks_children:
  assumes "(case Q of
            None \<Rightarrow> Inr s
          | Some Q' \<Rightarrow>
              bind (markChild_NNS Q' IdExpression_qualifier s) (\<lambda>s'.
                if isValid TK then markChildToken TK TemplateKeyword s' else Inr s')) = Inr s1"
  shows "children (Store s1 n) = children (Store s n)"
proof (cases Q)
  case None
  then show ?thesis using assms by simp
next
  case (Some Q')
  then have "bind (markChild_NNS Q' IdExpression_qualifier s) (\<lambda>s'.
                if isValid TK then markChildToken TK TemplateKeyword s' else Inr s') = Inr s1"
    using assms by simp
  then obtain s0 where a: "markChild_NNS Q' IdExpression_qualifier s = Inr s0"
    and b: "(if isValid TK then markChildToken TK TemplateKeyword s0 else Inr s0) = Inr s1"
    by (rule bindE)
  have "children (Store s1 n) = children (Store s0 n)"
    using b markChildToken_children [of TK TemplateKeyword s0 s1 n] by (cases "isValid TK") simp_all
  then show ?thesis using markChild_NNS_children [OF a, of n] by simp
qed

lemma buildIdExpression_built:
  assumes run: "buildIdExpression Q TK U From s = Inr (IdN, s')"
    and sorted: "sorted_wrt (<) (map fst (Trees s))"
  shows "\<exists>R1 R2. getRange s U = Inr R1
      \<and> getRange2 s (case Q of Some Q' \<Rightarrow> NNS_getBeginLoc Q' | None \<Rightarrow> getBegin U) (getEnd U)
          = Inr R2
      \<and> Trees s' = foldInto R2 (Suc (NextFree s)) (foldInto R1 (NextFree s) (Trees s))
      \<and> (\<forall>n. children (Store s' n)
            = (if n = NextFree s then map snd (pendingIn R1 (Trees s))
               else if n = Suc (NextFree s)
                 then map snd (pendingIn R2 (foldInto R1 (NextFree s) (Trees s)))
               else children (Store s n)))
      \<and> Role (Store s' (NextFree s)) = IdExpression_id"
    and "sorted_wrt (<) (map fst (Trees s'))"
proof -
  let ?IdBegin = "case Q of Some Q' \<Rightarrow> NNS_getBeginLoc Q' | None \<Rightarrow> getBegin U"
  from run [unfolded buildIdExpression_def]
  obtain s1 where
    q: "(case Q of
            None \<Rightarrow> Inr s
          | Some Q' \<Rightarrow>
              bind (markChild_NNS Q' IdExpression_qualifier s) (\<lambda>s'.
                if isValid TK then markChildToken TK TemplateKeyword s' else Inr s')) = Inr s1"
    and r1: "(let (TheUnqualifiedId, s2) = allocate UnqualifiedId s1 in
      bind (getRange s2 U) (\<lambda>Rng.
      bind (foldNode Rng TheUnqualifiedId None s2) (\<lambda>s3.
      bind (markChild TheUnqualifiedId IdExpression_id s3) (\<lambda>s4.
        let IdExpressionBeginLoc = ?IdBegin;
            (TheIdExpression, s5) = allocate IdExpression s4 in
        bind (getRange2 s5 IdExpressionBeginLoc (getEnd U)) (\<lambda>Rng2.
        bind (foldNode Rng2 TheIdExpression From s5) (\<lambda>s6.
          Inr (TheIdExpression, s6))))))) = Inr (IdN, s')"
    by (rule bindE)
  obtain n1 s2 where al1: "allocate UnqualifiedId s1 = (n1, s2)"
    by (cases "allocate UnqualifiedId s1")
  from r1 al1 have "bind (getRange s2 U) (\<lambda>Rng.
      bind (foldNode Rng n1 None s2) (\<lambda>s3.
      bind (markChild n1 IdExpression_id s3) (\<lambda>s4.
        let IdExpressionBeginLoc = ?IdBegin;
            (TheIdExpression, s5) = allocate IdExpression s4 in
        bind (getRange2 s5 IdExpressionBeginLoc (getEnd U)) (\<lambda>Rng2.
        bind (foldNode Rng2 TheIdExpression From s5) (\<lambda>s6.
          Inr (TheIdExpression, s6)))))) = Inr (IdN, s')"
    by simp
  then obtain Rng where g1: "getRange s2 U = Inr Rng"
    and r2: "bind (foldNode Rng n1 None s2) (\<lambda>s3.
      bind (markChild n1 IdExpression_id s3) (\<lambda>s4.
        let IdExpressionBeginLoc = ?IdBegin;
            (TheIdExpression, s5) = allocate IdExpression s4 in
        bind (getRange2 s5 IdExpressionBeginLoc (getEnd U)) (\<lambda>Rng2.
        bind (foldNode Rng2 TheIdExpression From s5) (\<lambda>s6.
          Inr (TheIdExpression, s6))))) = Inr (IdN, s')"
    by (rule bindE)
  from r2 obtain s3 where f1: "foldNode Rng n1 None s2 = Inr s3"
    and r3: "bind (markChild n1 IdExpression_id s3) (\<lambda>s4.
        let IdExpressionBeginLoc = ?IdBegin;
            (TheIdExpression, s5) = allocate IdExpression s4 in
        bind (getRange2 s5 IdExpressionBeginLoc (getEnd U)) (\<lambda>Rng2.
        bind (foldNode Rng2 TheIdExpression From s5) (\<lambda>s6.
          Inr (TheIdExpression, s6)))) = Inr (IdN, s')"
    by (rule bindE)
  from r3 obtain s4 where m1: "markChild n1 IdExpression_id s3 = Inr s4"
    and r4: "(let IdExpressionBeginLoc = ?IdBegin;
            (TheIdExpression, s5) = allocate IdExpression s4 in
        bind (getRange2 s5 IdExpressionBeginLoc (getEnd U)) (\<lambda>Rng2.
        bind (foldNode Rng2 TheIdExpression From s5) (\<lambda>s6.
          Inr (TheIdExpression, s6)))) = Inr (IdN, s')"
    by (rule bindE)
  obtain n2 s5 where al2: "allocate IdExpression s4 = (n2, s5)"
    by (cases "allocate IdExpression s4")
  from r4 al2 have "bind (getRange2 s5 ?IdBegin (getEnd U)) (\<lambda>Rng2.
        bind (foldNode Rng2 n2 From s5) (\<lambda>s6. Inr (n2, s6))) = Inr (IdN, s')"
    by (simp add: Let_def)
  then obtain Rng2 where g2: "getRange2 s5 ?IdBegin (getEnd U) = Inr Rng2"
    and r5: "bind (foldNode Rng2 n2 From s5) (\<lambda>s6. Inr (n2, s6)) = Inr (IdN, s')"
    by (rule bindE)
  from r5 obtain s6 where f2: "foldNode Rng2 n2 From s5 = Inr s6"
    and "Inr (n2, s6) = (Inr (IdN, s') :: error + nat \<times> TreeBuilder)"
    by (rule bindE)
  then have fin: "IdN = n2" "s' = s6" by simp_all
  obtain b1 e1 where R1: "Rng = (b1, e1)" by (cases Rng)
  obtain b2 e2 where R2: "Rng2 = (b2, e2)" by (cases Rng2)
  note Qm = qualifier_marks_grows [OF q]
  note A1 = allocate_grows [OF al1]
  note F1 = foldNode_grows [OF f1]
  note M1 = setRole_grows [OF m1 [unfolded markChild_def]]
  note A2 = allocate_grows [OF al2]
  note F2 = foldNode_grows [OF f2]
  have G2: "grows s ([] @ [UnqualifiedId]) s2"
    by (intro grows_trans [OF Qm(1)] A1(2))
  have G4: "grows s ([] @ [UnqualifiedId] @ [] @ []) s4"
    by (intro grows_trans [OF Qm(1)] grows_trans [OF A1(2)] grows_trans [OF F1(1)] M1(1))
  have G5: "grows s (([] @ [UnqualifiedId] @ [] @ []) @ [IdExpression]) s5"
    by (rule grows_trans [OF G4 A2(2)])
  have G6: "grows s4 ([IdExpression] @ []) s6"
    by (intro grows_trans [OF A2(2)] F2(1))
  have n1: "n1 = NextFree s" using A1(1) grows_NextFree [OF Qm(1)] by simp
  have n2: "n2 = Suc (NextFree s)" using A2(1) grows_NextFree [OF G4] by simp
  have T2: "Trees s2 = Trees s" using Qm(2) A1(3) by simp
  have so2: "sorted_wrt (<) (map fst (Trees s2))" using sorted T2 by simp
  note S1 = foldNode_sorted [OF f1 [unfolded R1] so2]
  have T5: "Trees s5 = Trees s3" using M1(2) A2(3) by simp
  have so5: "sorted_wrt (<) (map fst (Trees s5))" using S1(3) T5 by simp
  note S2 = foldNode_sorted [OF f2 [unfolded R2] so5]
  have g1': "getRange s U = Inr Rng"
    using g1 range_frame(2) [of s2 s U] G2 by (simp add: grows_def)
  have g2': "getRange2 s ?IdBegin (getEnd U) = Inr Rng2"
    using g2 range_frame(1) [of s5 s ?IdBegin "getEnd U"] G5 by (simp add: grows_def)
  have T: "Trees s' = foldInto Rng2 (Suc (NextFree s)) (foldInto Rng (NextFree s) (Trees s))"
    using S2(1) S1(1) T5 T2 R1 R2 n1 n2 fin by simp
  have ne: "n1 \<noteq> n2" using n1 n2 by simp
  have c2: "children (Store s2 n) = (if n = n1 then [] else children (Store s n))" for n
    by (simp add: allocate_children [OF al1] qualifier_marks_children [OF q])
  have c4: "children (Store s4 n)
      = (if n = n1 then map snd (pendingIn Rng (Trees s)) else children (Store s n))" for n
    by (simp add: setRole_children [OF m1 [unfolded markChild_def]] S1(2) c2 T2 R1)
  have c6: "children (Store s6 n)
      = (if n = n2 then map snd (pendingIn Rng2 (foldInto Rng n1 (Trees s)))
         else if n = n1 then map snd (pendingIn Rng (Trees s)) else children (Store s n))" for n
    by (simp add: S2(2) allocate_children [OF al2] c4 T5 S1(1) T2 R1 R2)
  have C: "children (Store s' n)
            = (if n = NextFree s then map snd (pendingIn Rng (Trees s))
               else if n = Suc (NextFree s)
                 then map snd (pendingIn Rng2 (foldInto Rng (NextFree s) (Trees s)))
               else children (Store s n))" for n
    unfolding fin c6 using n1 n2 by simp
  have "Role (Store s4 n1) = IdExpression_id" by (rule M1(5))
  moreover have "n1 < NextFree s4" using n1 grows_NextFree [OF G4] by simp
  ultimately have Ro: "Role (Store s' (NextFree s)) = IdExpression_id"
    using grows_Role [OF G6, of n1] n1 fin by simp
  show "\<exists>R1 R2. getRange s U = Inr R1
      \<and> getRange2 s ?IdBegin (getEnd U) = Inr R2
      \<and> Trees s' = foldInto R2 (Suc (NextFree s)) (foldInto R1 (NextFree s) (Trees s))
      \<and> (\<forall>n. children (Store s' n)
            = (if n = NextFree s then map snd (pendingIn R1 (Trees s))
               else if n = Suc (NextFree s)
                 then map snd (pendingIn R2 (foldInto R1 (NextFree s) (Trees s)))
               else children (Store s n)))
      \<and> Role (Store s' (NextFree s)) = IdExpression_id"
    using g1' g2' T C Ro by (intro exI [of _ Rng] exI [of _ Rng2] conjI allI)
  show "sorted_wrt (<) (map fst (Trees s'))" using S2(3) fin by simp
qed

lemma member_expression_marks:
  assumes run: "WalkUpFromMemberExpr S s = Inr (ok, s')"
  shows "(isImplicitAccess S \<longrightarrow>
            map (\<lambda>n. Kind (Store s' n)) [NextFree s..<NextFree s'] = [UnqualifiedId, IdExpression]
          \<and> Nodes s' = (Nodes s)(StmtPtr (stmtPtr S) \<mapsto> Suc (NextFree s)))
       \<and> (\<not> isImplicitAccess S \<longrightarrow>
            map (\<lambda>n. Kind (Store s' n)) [NextFree s..<NextFree s']
              = [UnqualifiedId, IdExpression, MemberExpression]
          \<and> Nodes s' = (Nodes s)(StmtPtr (stmtPtr S) \<mapsto> Suc (Suc (NextFree s)))
          \<and> Role (Store s' (Suc (NextFree s))) = MemberExpression_member
          \<and> (\<exists>nb. Nodes s (StmtPtr (IgnoreImplicit (getBase S))) = Some nb
                \<and> (nb < NextFree s \<longrightarrow> Role (Store s' nb) = MemberExpression_object))
          \<and> (isValid (Member_getOperatorLoc S)
              \<and> LocationToToken s (Member_getOperatorLoc S) = Some t
              \<and> sorted_wrt (<) (map fst (Trees s)) \<and> (t, n) \<in> set (Trees s)
              \<and> n < NextFree s
              \<and> (\<forall>b. LocationToToken s (getMemberLoc S) = Some b \<longrightarrow> t < b)
              \<and> (\<forall>Q b. getQualifierLoc S = Some Q
                        \<and> LocationToToken s (NNS_getBeginLoc Q) = Some b \<longrightarrow> t < b)
              \<longrightarrow> Role (Store s' n) = MemberExpression_accessToken))"
proof (intro conjI impI)
  assume imp: "isImplicitAccess S"
  with run have "bind (buildIdExpression (getQualifierLoc S) (getTemplateKeywordLoc S)
               (getMemberLoc S, getEndLoc S) (Some (StmtPtr (stmtPtr S))) s)
         (\<lambda>(TheIdExpression, s'). Inr (True, s')) = Inr (ok, s')"
    by (simp add: WalkUpFromMemberExpr_def)
  then obtain x where b: "buildIdExpression (getQualifierLoc S) (getTemplateKeywordLoc S)
               (getMemberLoc S, getEndLoc S) (Some (StmtPtr (stmtPtr S))) s = Inr x"
    and r: "(\<lambda>(TheIdExpression, s'). Inr (True, s')) x
              = (Inr (ok, s') :: error + bool \<times> TreeBuilder)"
    by (rule bindE)
  obtain IdN where x: "x = (IdN, s')" using r by (cases x) auto
  note B = buildIdExpression_grows(1,2,3) [OF b [unfolded x]]
  show "map (\<lambda>n. Kind (Store s' n)) [NextFree s..<NextFree s'] = [UnqualifiedId, IdExpression]"
    using B(1) by (rule grows_kinds)
  show "Nodes s' = (Nodes s)(StmtPtr (stmtPtr S) \<mapsto> Suc (NextFree s))"
    using B(2,3) by simp
next
  assume expl: "\<not> isImplicitAccess S"
  with run have "bind (buildIdExpression (getQualifierLoc S) (getTemplateKeywordLoc S)
               (getMemberLoc S, getEndLoc S) None s) (\<lambda>(TheIdExpression, s1).
       bind (markChild TheIdExpression MemberExpression_member s1) (\<lambda>s2.
       bind (markExprChild (Some (getBase S)) MemberExpression_object s2) (\<lambda>s3.
       bind (markChildToken (Member_getOperatorLoc S) MemberExpression_accessToken s3) (\<lambda>s4.
         let (New, s5) = allocate MemberExpression s4 in
         bind (getExprRange s5 S) (\<lambda>Rng.
         bind (foldNode Rng New (Some (StmtPtr (stmtPtr S))) s5) (\<lambda>s6.
           Inr (True, s6))))))) = Inr (ok, s')"
    by (simp add: WalkUpFromMemberExpr_def)
  then obtain x where b0: "buildIdExpression (getQualifierLoc S) (getTemplateKeywordLoc S)
               (getMemberLoc S, getEndLoc S) None s = Inr x"
    and r0: "(\<lambda>(TheIdExpression, s1).
       bind (markChild TheIdExpression MemberExpression_member s1) (\<lambda>s2.
       bind (markExprChild (Some (getBase S)) MemberExpression_object s2) (\<lambda>s3.
       bind (markChildToken (Member_getOperatorLoc S) MemberExpression_accessToken s3) (\<lambda>s4.
         let (New, s5) = allocate MemberExpression s4 in
         bind (getExprRange s5 S) (\<lambda>Rng.
         bind (foldNode Rng New (Some (StmtPtr (stmtPtr S))) s5) (\<lambda>s6.
           Inr (True, s6))))))) x = Inr (ok, s')"
    by (rule bindE)
  obtain IdN s1 where x: "x = (IdN, s1)" by (cases x)
  from r0 [unfolded x] have
    "bind (markChild IdN MemberExpression_member s1) (\<lambda>s2.
       bind (markExprChild (Some (getBase S)) MemberExpression_object s2) (\<lambda>s3.
       bind (markChildToken (Member_getOperatorLoc S) MemberExpression_accessToken s3) (\<lambda>s4.
         let (New, s5) = allocate MemberExpression s4 in
         bind (getExprRange s5 S) (\<lambda>Rng.
         bind (foldNode Rng New (Some (StmtPtr (stmtPtr S))) s5) (\<lambda>s6.
           Inr (True, s6)))))) = Inr (ok, s')"
    by simp
  then obtain s2 where m1: "markChild IdN MemberExpression_member s1 = Inr s2"
    and r1: "bind (markExprChild (Some (getBase S)) MemberExpression_object s2) (\<lambda>s3.
       bind (markChildToken (Member_getOperatorLoc S) MemberExpression_accessToken s3) (\<lambda>s4.
         let (New, s5) = allocate MemberExpression s4 in
         bind (getExprRange s5 S) (\<lambda>Rng.
         bind (foldNode Rng New (Some (StmtPtr (stmtPtr S))) s5) (\<lambda>s6.
           Inr (True, s6))))) = Inr (ok, s')"
    by (rule bindE)
  from r1 obtain s3 where m2: "markExprChild (Some (getBase S)) MemberExpression_object s2 = Inr s3"
    and r2: "bind (markChildToken (Member_getOperatorLoc S) MemberExpression_accessToken s3) (\<lambda>s4.
         let (New, s5) = allocate MemberExpression s4 in
         bind (getExprRange s5 S) (\<lambda>Rng.
         bind (foldNode Rng New (Some (StmtPtr (stmtPtr S))) s5) (\<lambda>s6.
           Inr (True, s6)))) = Inr (ok, s')"
    by (rule bindE)
  from r2 obtain s4 where
    m3: "markChildToken (Member_getOperatorLoc S) MemberExpression_accessToken s3 = Inr s4"
    and r3: "(let (New, s5) = allocate MemberExpression s4 in
         bind (getExprRange s5 S) (\<lambda>Rng.
         bind (foldNode Rng New (Some (StmtPtr (stmtPtr S))) s5) (\<lambda>s6.
           Inr (True, s6)))) = Inr (ok, s')"
    by (rule bindE)
  obtain New s5 where al: "allocate MemberExpression s4 = (New, s5)"
    by (cases "allocate MemberExpression s4")
  from r3 al have "bind (getExprRange s5 S) (\<lambda>Rng.
         bind (foldNode Rng New (Some (StmtPtr (stmtPtr S))) s5) (\<lambda>s6.
           Inr (True, s6))) = Inr (ok, s')"
    by simp
  then obtain Rng where
    r4: "bind (foldNode Rng New (Some (StmtPtr (stmtPtr S))) s5) (\<lambda>s6. Inr (True, s6))
          = Inr (ok, s')"
    by (rule bindE)
  then obtain s6 where f: "foldNode Rng New (Some (StmtPtr (stmtPtr S))) s5 = Inr s6"
    and "Inr (True, s6) = (Inr (ok, s') :: error + bool \<times> TreeBuilder)"
    by (rule bindE)
  then have fin: "s6 = s'" by simp
  note B = buildIdExpression_grows [OF b0 [unfolded x]]
  note M1 = setRole_grows [OF m1 [unfolded markChild_def]]
  note M2 = markExprChild_marks [OF m2]
  note M3 = markChildToken_grows [OF m3]
  note AL = allocate_grows [OF al]
  note F = foldNode_grows [OF f [unfolded fin]]
  have G2: "grows s ([UnqualifiedId, IdExpression] @ []) s2"
    by (intro grows_trans [OF B(1)] M1(1))
  have G26: "grows s2 ([] @ [] @ [MemberExpression] @ []) s'"
    by (intro grows_trans [OF M2(1)] grows_trans [OF M3(1)] grows_trans [OF AL(2)] F(1))
  have G36: "grows s3 ([] @ [MemberExpression] @ []) s'"
    by (intro grows_trans [OF M3(1)] grows_trans [OF AL(2)] F(1))
  have G46: "grows s4 ([MemberExpression] @ []) s'"
    by (intro grows_trans [OF AL(2)] F(1))
  have G: "grows s (([UnqualifiedId, IdExpression] @ []) @ ([] @ [] @ [MemberExpression] @ [])) s'"
    by (rule grows_trans [OF G2 G26])
  have nf2: "NextFree s2 = NextFree s + 2" using grows_NextFree [OF G2] by simp
  have nf3: "NextFree s3 = NextFree s + 2" using grows_NextFree [OF M2(1)] nf2 by simp
  have nf4: "NextFree s4 = NextFree s + 2" using grows_NextFree [OF M3(1)] nf3 by simp
  show "map (\<lambda>n. Kind (Store s' n)) [NextFree s..<NextFree s']
              = [UnqualifiedId, IdExpression, MemberExpression]"
    using grows_kinds [OF G] by simp
  have "Nodes s5 = Nodes s" using B(3) M1(3) M2(3) M3(3) AL(4) by simp
  then show "Nodes s' = (Nodes s)(StmtPtr (stmtPtr S) \<mapsto> Suc (Suc (NextFree s)))"
    using F(2) AL(1) nf4 by simp
  have "Role (Store s2 IdN) = MemberExpression_member" by (rule M1(5))
  moreover have "IdN < NextFree s2" using B(2) nf2 by simp
  ultimately have "Role (Store s' IdN) = MemberExpression_member"
    using grows_Role [OF G26, of IdN] by simp
  then show "Role (Store s' (Suc (NextFree s))) = MemberExpression_member"
    using B(2) by simp
  show "\<exists>nb. Nodes s (StmtPtr (IgnoreImplicit (getBase S))) = Some nb
                \<and> (nb < NextFree s \<longrightarrow> Role (Store s' nb) = MemberExpression_object)"
  proof -
    from M2(4) obtain nb where nb: "Nodes s2 (StmtPtr (IgnoreImplicit (getBase S))) = Some nb"
      and r: "Role (Store s3 nb) = MemberExpression_object"
      by blast
    have "Nodes s2 = Nodes s" using B(3) M1(3) by simp
    moreover have "nb < NextFree s \<longrightarrow> Role (Store s' nb) = MemberExpression_object"
      using grows_Role [OF G36, of nb] r nf3 by simp
    ultimately show ?thesis using nb by simp
  qed
  show "Role (Store s' n) = MemberExpression_accessToken"
    if H: "isValid (Member_getOperatorLoc S)
              \<and> LocationToToken s (Member_getOperatorLoc S) = Some t
              \<and> sorted_wrt (<) (map fst (Trees s)) \<and> (t, n) \<in> set (Trees s)
              \<and> n < NextFree s
              \<and> (\<forall>b. LocationToToken s (getMemberLoc S) = Some b \<longrightarrow> t < b)
              \<and> (\<forall>Q b. getQualifierLoc S = Some Q
                        \<and> LocationToToken s (NNS_getBeginLoc Q) = Some b \<longrightarrow> t < b)"
  proof -
    from H have v: "isValid (Member_getOperatorLoc S)"
      and lt: "LocationToToken s (Member_getOperatorLoc S) = Some t"
      and sorted: "sorted_wrt (<) (map fst (Trees s))" and mem: "(t, n) \<in> set (Trees s)"
      and nlt: "n < NextFree s"
      and u0: "\<forall>b. LocationToToken s (getMemberLoc S) = Some b \<longrightarrow> t < b"
      and qb: "\<forall>Q b. getQualifierLoc S = Some Q
                        \<and> LocationToToken s (NNS_getBeginLoc Q) = Some b \<longrightarrow> t < b"
      by blast+
    have u: "\<forall>b. LocationToToken s (getBegin (getMemberLoc S, getEndLoc S)) = Some b \<longrightarrow> t < b"
      using u0 by (simp add: getBegin_def)
    have K1: "sorted_wrt (<) (map fst (Trees s1)) \<and> (t, n) \<in> set (Trees s1)"
      using B(4) [OF sorted mem u qb] .
    have T3: "Trees s3 = Trees s1" using M1(2) M2(2) by simp
    have L3: "LocationToToken s3 = LocationToToken s"
      using grows_LocationToToken [OF G2] grows_LocationToToken [OF M2(1)] by simp
    from m3 v lt L3 have a: "assignRole (t, Suc t) MemberExpression_accessToken s3 = Inr s4"
      by (simp add: markChildToken_def findToken_def bind_def isValid_def isInvalid_def)
    have "Role (Store s4 n) = MemberExpression_accessToken"
      using assignRole_at [OF a] K1 T3 by simp
    then show ?thesis
      using grows_Role [OF G46, of n] nlt nf4 by simp
  qed
qed

lemma pendingIn_before:
  fixes T :: "(nat \<times> nat) list"
  assumes "sorted_wrt (<) (map fst T)" and "e' \<le> b'" and "b' < e"
  shows "pendingIn (b, e') (foldInto (b', e) N T) = pendingIn (b, e') T"
proof -
  have 1: "filter (\<lambda>x. b \<le> fst x \<and> fst x < e') (filter (\<lambda>x. fst x < b') T)
      = filter (\<lambda>x. b \<le> fst x \<and> fst x < e') T"
    using assms(2) by (auto intro!: filter_cong)
  have 2: "filter (\<lambda>x. b \<le> fst x \<and> fst x < e') (filter (\<lambda>x. e \<le> fst x) T) = []"
    using assms(2,3) by (auto simp: filter_empty_conv)
  show ?thesis
    unfolding foldInto_parts [OF assms(1,3)] pendingIn_def fst_conv snd_conv
    using assms(2,3) by (simp add: 1 2 del: filter_filter)
qed

lemma member_expression_built:
  assumes run: "WalkUpFromMemberExpr S s = Inr (ok, s')"
    and sorted: "sorted_wrt (<) (map fst (Trees s))"
  shows "\<exists>R1 R2. getRange s (getMemberLoc S, getEndLoc S) = Inr R1
      \<and> getRange2 s (case getQualifierLoc S of Some Q \<Rightarrow> NNS_getBeginLoc Q
                       | None \<Rightarrow> getMemberLoc S) (getEndLoc S) = Inr R2
      \<and> children (Store s' (NextFree s)) = map snd (pendingIn R1 (Trees s))
      \<and> Role (Store s' (NextFree s)) = IdExpression_id
      \<and> children (Store s' (Suc (NextFree s)))
          = map snd (pendingIn R2 (foldInto R1 (NextFree s) (Trees s)))
      \<and> (if isImplicitAccess S
          then Trees s' = foldInto R2 (Suc (NextFree s)) (foldInto R1 (NextFree s) (Trees s))
          else \<exists>R3. getExprRange s S = Inr R3
                 \<and> children (Store s' (Suc (Suc (NextFree s))))
                     = map snd (pendingIn R3
                         (foldInto R2 (Suc (NextFree s)) (foldInto R1 (NextFree s) (Trees s))))
                 \<and> Trees s' = foldInto R3 (Suc (Suc (NextFree s)))
                     (foldInto R2 (Suc (NextFree s)) (foldInto R1 (NextFree s) (Trees s))))"
proof (cases "isImplicitAccess S")
  case True
  with run have "bind (buildIdExpression (getQualifierLoc S) (getTemplateKeywordLoc S)
               (getMemberLoc S, getEndLoc S) (Some (StmtPtr (stmtPtr S))) s)
         (\<lambda>(TheIdExpression, s'). Inr (True, s')) = Inr (ok, s')"
    by (simp add: WalkUpFromMemberExpr_def)
  then obtain x where b: "buildIdExpression (getQualifierLoc S) (getTemplateKeywordLoc S)
               (getMemberLoc S, getEndLoc S) (Some (StmtPtr (stmtPtr S))) s = Inr x"
    and r: "(\<lambda>(TheIdExpression, s'). Inr (True, s')) x
              = (Inr (ok, s') :: error + bool \<times> TreeBuilder)"
    by (rule bindE)
  obtain IdN where x: "x = (IdN, s')" using r by (cases x) auto
  have IB: "(case getQualifierLoc S of Some Q \<Rightarrow> NNS_getBeginLoc Q
              | None \<Rightarrow> getBegin (getMemberLoc S, getEndLoc S))
      = (case getQualifierLoc S of Some Q \<Rightarrow> NNS_getBeginLoc Q | None \<Rightarrow> getMemberLoc S)"
    by (cases "getQualifierLoc S") (simp_all add: getBegin_def)
  from buildIdExpression_built(1) [OF b [unfolded x] sorted] obtain R1 R2 where
    "getRange s (getMemberLoc S, getEndLoc S) = Inr R1"
    "getRange2 s (case getQualifierLoc S of Some Q \<Rightarrow> NNS_getBeginLoc Q
                       | None \<Rightarrow> getMemberLoc S) (getEndLoc S) = Inr R2"
    "Trees s' = foldInto R2 (Suc (NextFree s)) (foldInto R1 (NextFree s) (Trees s))"
    "\<forall>n. children (Store s' n)
            = (if n = NextFree s then map snd (pendingIn R1 (Trees s))
               else if n = Suc (NextFree s)
                 then map snd (pendingIn R2 (foldInto R1 (NextFree s) (Trees s)))
               else children (Store s n))"
    "Role (Store s' (NextFree s)) = IdExpression_id"
    unfolding IB by (auto simp: getEnd_def)
  then show ?thesis
    using True by (intro exI [of _ R1] exI [of _ R2] conjI) simp_all
next
  case False
  with run have "bind (buildIdExpression (getQualifierLoc S) (getTemplateKeywordLoc S)
               (getMemberLoc S, getEndLoc S) None s) (\<lambda>(TheIdExpression, s1).
       bind (markChild TheIdExpression MemberExpression_member s1) (\<lambda>s2.
       bind (markExprChild (Some (getBase S)) MemberExpression_object s2) (\<lambda>s3.
       bind (markChildToken (Member_getOperatorLoc S) MemberExpression_accessToken s3) (\<lambda>s4.
         let (New, s5) = allocate MemberExpression s4 in
         bind (getExprRange s5 S) (\<lambda>Rng.
         bind (foldNode Rng New (Some (StmtPtr (stmtPtr S))) s5) (\<lambda>s6.
           Inr (True, s6))))))) = Inr (ok, s')"
    by (simp add: WalkUpFromMemberExpr_def)
  then obtain x where b0: "buildIdExpression (getQualifierLoc S) (getTemplateKeywordLoc S)
               (getMemberLoc S, getEndLoc S) None s = Inr x"
    and r0: "(\<lambda>(TheIdExpression, s1).
       bind (markChild TheIdExpression MemberExpression_member s1) (\<lambda>s2.
       bind (markExprChild (Some (getBase S)) MemberExpression_object s2) (\<lambda>s3.
       bind (markChildToken (Member_getOperatorLoc S) MemberExpression_accessToken s3) (\<lambda>s4.
         let (New, s5) = allocate MemberExpression s4 in
         bind (getExprRange s5 S) (\<lambda>Rng.
         bind (foldNode Rng New (Some (StmtPtr (stmtPtr S))) s5) (\<lambda>s6.
           Inr (True, s6))))))) x = Inr (ok, s')"
    by (rule bindE)
  obtain IdN s1 where x: "x = (IdN, s1)" by (cases x)
  from r0 [unfolded x] have
    "bind (markChild IdN MemberExpression_member s1) (\<lambda>s2.
       bind (markExprChild (Some (getBase S)) MemberExpression_object s2) (\<lambda>s3.
       bind (markChildToken (Member_getOperatorLoc S) MemberExpression_accessToken s3) (\<lambda>s4.
         let (New, s5) = allocate MemberExpression s4 in
         bind (getExprRange s5 S) (\<lambda>Rng.
         bind (foldNode Rng New (Some (StmtPtr (stmtPtr S))) s5) (\<lambda>s6.
           Inr (True, s6)))))) = Inr (ok, s')"
    by simp
  then obtain s2 where m1: "markChild IdN MemberExpression_member s1 = Inr s2"
    and r1: "bind (markExprChild (Some (getBase S)) MemberExpression_object s2) (\<lambda>s3.
       bind (markChildToken (Member_getOperatorLoc S) MemberExpression_accessToken s3) (\<lambda>s4.
         let (New, s5) = allocate MemberExpression s4 in
         bind (getExprRange s5 S) (\<lambda>Rng.
         bind (foldNode Rng New (Some (StmtPtr (stmtPtr S))) s5) (\<lambda>s6.
           Inr (True, s6))))) = Inr (ok, s')"
    by (rule bindE)
  from r1 obtain s3 where m2: "markExprChild (Some (getBase S)) MemberExpression_object s2 = Inr s3"
    and r2: "bind (markChildToken (Member_getOperatorLoc S) MemberExpression_accessToken s3) (\<lambda>s4.
         let (New, s5) = allocate MemberExpression s4 in
         bind (getExprRange s5 S) (\<lambda>Rng.
         bind (foldNode Rng New (Some (StmtPtr (stmtPtr S))) s5) (\<lambda>s6.
           Inr (True, s6)))) = Inr (ok, s')"
    by (rule bindE)
  from r2 obtain s4 where
    m3: "markChildToken (Member_getOperatorLoc S) MemberExpression_accessToken s3 = Inr s4"
    and r3: "(let (New, s5) = allocate MemberExpression s4 in
         bind (getExprRange s5 S) (\<lambda>Rng.
         bind (foldNode Rng New (Some (StmtPtr (stmtPtr S))) s5) (\<lambda>s6.
           Inr (True, s6)))) = Inr (ok, s')"
    by (rule bindE)
  obtain New s5 where al: "allocate MemberExpression s4 = (New, s5)"
    by (cases "allocate MemberExpression s4")
  from r3 al have "bind (getExprRange s5 S) (\<lambda>Rng.
         bind (foldNode Rng New (Some (StmtPtr (stmtPtr S))) s5) (\<lambda>s6.
           Inr (True, s6))) = Inr (ok, s')"
    by simp
  then obtain Rng where g: "getExprRange s5 S = Inr Rng"
    and r4: "bind (foldNode Rng New (Some (StmtPtr (stmtPtr S))) s5) (\<lambda>s6. Inr (True, s6))
          = Inr (ok, s')"
    by (rule bindE)
  from r4 obtain s6 where f: "foldNode Rng New (Some (StmtPtr (stmtPtr S))) s5 = Inr s6"
    and "Inr (True, s6) = (Inr (ok, s') :: error + bool \<times> TreeBuilder)"
    by (rule bindE)
  then have fin: "s6 = s'" by simp
  obtain b3 e3 where R3: "Rng = (b3, e3)" by (cases Rng)
  have IB: "(case getQualifierLoc S of Some Q \<Rightarrow> NNS_getBeginLoc Q
              | None \<Rightarrow> getBegin (getMemberLoc S, getEndLoc S))
      = (case getQualifierLoc S of Some Q \<Rightarrow> NNS_getBeginLoc Q | None \<Rightarrow> getMemberLoc S)"
    by (cases "getQualifierLoc S") (simp_all add: getBegin_def)
  note B = buildIdExpression_grows(1,2) [OF b0 [unfolded x]]
  note M1 = setRole_grows [OF m1 [unfolded markChild_def]]
  note M2 = markExprChild_marks [OF m2]
  note M3 = markChildToken_grows [OF m3]
  note AL = allocate_grows [OF al]
  note F = foldNode_grows [OF f [unfolded fin]]
  from buildIdExpression_built [OF b0 [unfolded x] sorted] obtain R1 R2 where
    g1: "getRange s (getMemberLoc S, getEndLoc S) = Inr R1"
    and g2: "getRange2 s (case getQualifierLoc S of Some Q \<Rightarrow> NNS_getBeginLoc Q
                       | None \<Rightarrow> getMemberLoc S) (getEndLoc S) = Inr R2"
    and T1: "Trees s1 = foldInto R2 (Suc (NextFree s)) (foldInto R1 (NextFree s) (Trees s))"
    and C1: "\<And>n. children (Store s1 n)
            = (if n = NextFree s then map snd (pendingIn R1 (Trees s))
               else if n = Suc (NextFree s)
                 then map snd (pendingIn R2 (foldInto R1 (NextFree s) (Trees s)))
               else children (Store s n))"
    and Ro1: "Role (Store s1 (NextFree s)) = IdExpression_id"
    and so1: "sorted_wrt (<) (map fst (Trees s1))"
    unfolding IB by (auto simp: getEnd_def)
  have G14: "grows s1 ([] @ [] @ []) s4"
    by (intro grows_trans [OF M1(1)] grows_trans [OF M2(1)] M3(1))
  have G15: "grows s1 (([] @ [] @ []) @ [MemberExpression]) s5"
    by (rule grows_trans [OF G14 AL(2)])
  have G16: "grows s1 ((([] @ [] @ []) @ [MemberExpression]) @ []) s'"
    by (rule grows_trans [OF G15 F(1)])
  have G05: "grows s ([UnqualifiedId, IdExpression] @ (([] @ [] @ []) @ [MemberExpression])) s5"
    by (rule grows_trans [OF B(1) G15])
  have nf1: "NextFree s1 = NextFree s + 2" using grows_NextFree [OF B(1)] by simp
  have New: "New = Suc (Suc (NextFree s))"
    using AL(1) grows_NextFree [OF G14] nf1 by simp
  have T5: "Trees s5 = Trees s1" using M1(2) M2(2) M3(2) AL(3) by simp
  have so5: "sorted_wrt (<) (map fst (Trees s5))" using so1 T5 by simp
  note S = foldNode_sorted [OF f [unfolded R3 fin] so5]
  have c5: "children (Store s5 n) = (if n = New then [] else children (Store s1 n))" for n
    by (simp add: allocate_children [OF al] markChildToken_children [OF m3]
          markExprChild_children [OF m2] setRole_children [OF m1 [unfolded markChild_def]])
  have g3: "getExprRange s S = Inr Rng"
    using g range_frame(3) [of s5 s S] G05 by (simp add: grows_def)
  have c0: "children (Store s' (NextFree s)) = map snd (pendingIn R1 (Trees s))"
    by (simp add: S(2) c5 C1 New)
  have c1: "children (Store s' (Suc (NextFree s)))
          = map snd (pendingIn R2 (foldInto R1 (NextFree s) (Trees s)))"
    by (simp add: S(2) c5 C1 New)
  have c2: "children (Store s' (Suc (Suc (NextFree s))))
      = map snd (pendingIn Rng
          (foldInto R2 (Suc (NextFree s)) (foldInto R1 (NextFree s) (Trees s))))"
    by (simp add: S(2) New T5 T1 R3)
  have t: "Trees s' = foldInto Rng (Suc (Suc (NextFree s)))
          (foldInto R2 (Suc (NextFree s)) (foldInto R1 (NextFree s) (Trees s)))"
    by (simp add: S(1) New T5 T1 R3)
  have ro: "Role (Store s' (NextFree s)) = IdExpression_id"
    using grows_Role [OF G16, of "NextFree s"] Ro1 nf1 by simp
  show ?thesis
    using False g1 g2 c0 ro c1 g3 c2 t
    by (intro exI [of _ R1] exI [of _ R2] conjI) auto
qed

text \<open>
  Claim C8. Let the handler of a member expression succeed. If the access is implicit, the
  nodes it allocated are an \<open>UnqualifiedId\<close> and the \<open>IdExpression\<close> holding it, and the
  \<open>IdExpression\<close> is what is recorded for the expression. Otherwise it allocated these two
  and a \<open>MemberExpression\<close>, which is what is recorded; the \<open>IdExpression\<close> has the role
  \<open>MemberExpression_member\<close>; the node recorded for the base expression, being allocated,
  has the role \<open>MemberExpression_object\<close>; and the node \<open>n\<close> pending for the token \<open>t\<close> of
  the \<open>.\<close> or \<open>->\<close> has the role \<open>MemberExpression_accessToken\<close>, when the keys of the forest
  are ascending and the id-expression begins after that token.

  When the keys of the forest are ascending, the nodes are built as follows. The
  \<open>UnqualifiedId\<close> is folded over the tokens \<open>R1\<close> of the member name, has the nodes pending
  there as its children and the role \<open>IdExpression_id\<close>; the \<open>IdExpression\<close> is then folded
  over the tokens \<open>R2\<close> from the qualifier, if any, through the member name. With an
  implicit access that is all, and the forest is the old one after these two folds.
  Otherwise the \<open>MemberExpression\<close> is then folded over the tokens \<open>R3\<close> of the whole
  expression: its children are the nodes then pending in \<open>R3\<close>, which it replaces.

  In particular, let the access be explicit and let the entries pending from the first token
  \<open>b\<close> of the expression up to the first token \<open>q\<close> of the id-expression be the node \<open>nb\<close>
  recorded for the base expression and the node \<open>n\<close> of the token \<open>t\<close> of the \<open>.\<close> or \<open>->\<close>,
  with the member name at the tokens \<open>m\<close> to \<open>l\<close>. Then the children of the
  \<open>MemberExpression\<close> are \<open>nb\<close>, \<open>n\<close> and the \<open>IdExpression\<close>, in this order, with the roles
  \<open>MemberExpression_object\<close>, \<open>MemberExpression_accessToken\<close> and
  \<open>MemberExpression_member\<close>, and the \<open>MemberExpression\<close> replaces in the forest all
  entries from \<open>b\<close> to \<open>l\<close>.
\<close>

theorem C8_member_expression:
  assumes run: "WalkUpFromMemberExpr S s = Inr (ok, s')"
  shows "(isImplicitAccess S \<longrightarrow>
            map (\<lambda>n. Kind (Store s' n)) [NextFree s..<NextFree s'] = [UnqualifiedId, IdExpression]
          \<and> Nodes s' = (Nodes s)(StmtPtr (stmtPtr S) \<mapsto> Suc (NextFree s)))
       \<and> (\<not> isImplicitAccess S \<longrightarrow>
            map (\<lambda>n. Kind (Store s' n)) [NextFree s..<NextFree s']
              = [UnqualifiedId, IdExpression, MemberExpression]
          \<and> Nodes s' = (Nodes s)(StmtPtr (stmtPtr S) \<mapsto> Suc (Suc (NextFree s)))
          \<and> Role (Store s' (Suc (NextFree s))) = MemberExpression_member
          \<and> (\<exists>nb. Nodes s (StmtPtr (IgnoreImplicit (getBase S))) = Some nb
                \<and> (nb < NextFree s \<longrightarrow> Role (Store s' nb) = MemberExpression_object))
          \<and> (isValid (Member_getOperatorLoc S)
              \<and> LocationToToken s (Member_getOperatorLoc S) = Some t
              \<and> sorted_wrt (<) (map fst (Trees s)) \<and> (t, n) \<in> set (Trees s)
              \<and> n < NextFree s
              \<and> (\<forall>b. LocationToToken s (getMemberLoc S) = Some b \<longrightarrow> t < b)
              \<and> (\<forall>Q b. getQualifierLoc S = Some Q
                        \<and> LocationToToken s (NNS_getBeginLoc Q) = Some b \<longrightarrow> t < b)
              \<longrightarrow> Role (Store s' n) = MemberExpression_accessToken))
       \<and> (sorted_wrt (<) (map fst (Trees s)) \<longrightarrow>
            (\<exists>R1 R2. getRange s (getMemberLoc S, getEndLoc S) = Inr R1
              \<and> getRange2 s (case getQualifierLoc S of Some Q \<Rightarrow> NNS_getBeginLoc Q
                               | None \<Rightarrow> getMemberLoc S) (getEndLoc S) = Inr R2
              \<and> children (Store s' (NextFree s)) = map snd (pendingIn R1 (Trees s))
              \<and> Role (Store s' (NextFree s)) = IdExpression_id
              \<and> children (Store s' (Suc (NextFree s)))
                  = map snd (pendingIn R2 (foldInto R1 (NextFree s) (Trees s)))
              \<and> (if isImplicitAccess S
                  then Trees s'
                    = foldInto R2 (Suc (NextFree s)) (foldInto R1 (NextFree s) (Trees s))
                  else \<exists>R3. getExprRange s S = Inr R3
                     \<and> children (Store s' (Suc (Suc (NextFree s))))
                         = map snd (pendingIn R3
                             (foldInto R2 (Suc (NextFree s))
                               (foldInto R1 (NextFree s) (Trees s))))
                     \<and> Trees s' = foldInto R3 (Suc (Suc (NextFree s)))
                         (foldInto R2 (Suc (NextFree s))
                           (foldInto R1 (NextFree s) (Trees s))))))
       \<and> (\<not> isImplicitAccess S
           \<and> sorted_wrt (<) (map fst (Trees s))
           \<and> isValid (Member_getOperatorLoc S)
           \<and> LocationToToken s (Member_getOperatorLoc S) = Some t
           \<and> LocationToToken s (getBegin (getSourceRange S)) = Some b
           \<and> LocationToToken s (case getQualifierLoc S of Some Q \<Rightarrow> NNS_getBeginLoc Q
                                  | None \<Rightarrow> getMemberLoc S) = Some q
           \<and> LocationToToken s (getMemberLoc S) = Some m
           \<and> LocationToToken s (getEndLoc S) = Some l
           \<and> q \<le> m \<and> m \<le> l
           \<and> pendingIn (b, q) (Trees s) = [(b, nb), (t, n)]
           \<and> Nodes s (StmtPtr (IgnoreImplicit (getBase S))) = Some nb
           \<and> nb < NextFree s \<and> n < NextFree s
           \<longrightarrow> children (Store s' (Suc (Suc (NextFree s)))) = [nb, n, Suc (NextFree s)]
             \<and> Role (Store s' nb) = MemberExpression_object
             \<and> Role (Store s' n) = MemberExpression_accessToken
             \<and> Role (Store s' (Suc (NextFree s))) = MemberExpression_member
             \<and> Trees s' = filter (\<lambda>x. fst x < b) (Trees s) @ (b, Suc (Suc (NextFree s)))
                            # filter (\<lambda>x. l < fst x) (Trees s))"
proof (intro conjI)
  note M = member_expression_marks [OF run, of t n]
  show "isImplicitAccess S \<longrightarrow>
            map (\<lambda>n. Kind (Store s' n)) [NextFree s..<NextFree s'] = [UnqualifiedId, IdExpression]
          \<and> Nodes s' = (Nodes s)(StmtPtr (stmtPtr S) \<mapsto> Suc (NextFree s))"
    by (rule M [THEN conjunct1])
  show "\<not> isImplicitAccess S \<longrightarrow>
            map (\<lambda>n. Kind (Store s' n)) [NextFree s..<NextFree s']
              = [UnqualifiedId, IdExpression, MemberExpression]
          \<and> Nodes s' = (Nodes s)(StmtPtr (stmtPtr S) \<mapsto> Suc (Suc (NextFree s)))
          \<and> Role (Store s' (Suc (NextFree s))) = MemberExpression_member
          \<and> (\<exists>nb. Nodes s (StmtPtr (IgnoreImplicit (getBase S))) = Some nb
                \<and> (nb < NextFree s \<longrightarrow> Role (Store s' nb) = MemberExpression_object))
          \<and> (isValid (Member_getOperatorLoc S)
              \<and> LocationToToken s (Member_getOperatorLoc S) = Some t
              \<and> sorted_wrt (<) (map fst (Trees s)) \<and> (t, n) \<in> set (Trees s)
              \<and> n < NextFree s
              \<and> (\<forall>b. LocationToToken s (getMemberLoc S) = Some b \<longrightarrow> t < b)
              \<and> (\<forall>Q b. getQualifierLoc S = Some Q
                        \<and> LocationToToken s (NNS_getBeginLoc Q) = Some b \<longrightarrow> t < b)
              \<longrightarrow> Role (Store s' n) = MemberExpression_accessToken)"
    by (rule M [THEN conjunct2])
  show "sorted_wrt (<) (map fst (Trees s)) \<longrightarrow>
            (\<exists>R1 R2. getRange s (getMemberLoc S, getEndLoc S) = Inr R1
              \<and> getRange2 s (case getQualifierLoc S of Some Q \<Rightarrow> NNS_getBeginLoc Q
                               | None \<Rightarrow> getMemberLoc S) (getEndLoc S) = Inr R2
              \<and> children (Store s' (NextFree s)) = map snd (pendingIn R1 (Trees s))
              \<and> Role (Store s' (NextFree s)) = IdExpression_id
              \<and> children (Store s' (Suc (NextFree s)))
                  = map snd (pendingIn R2 (foldInto R1 (NextFree s) (Trees s)))
              \<and> (if isImplicitAccess S
                  then Trees s'
                    = foldInto R2 (Suc (NextFree s)) (foldInto R1 (NextFree s) (Trees s))
                  else \<exists>R3. getExprRange s S = Inr R3
                     \<and> children (Store s' (Suc (Suc (NextFree s))))
                         = map snd (pendingIn R3
                             (foldInto R2 (Suc (NextFree s))
                               (foldInto R1 (NextFree s) (Trees s))))
                     \<and> Trees s' = foldInto R3 (Suc (Suc (NextFree s)))
                         (foldInto R2 (Suc (NextFree s))
                           (foldInto R1 (NextFree s) (Trees s)))))"
    using member_expression_built [OF run] by (rule impI)
  show "\<not> isImplicitAccess S
           \<and> sorted_wrt (<) (map fst (Trees s))
           \<and> isValid (Member_getOperatorLoc S)
           \<and> LocationToToken s (Member_getOperatorLoc S) = Some t
           \<and> LocationToToken s (getBegin (getSourceRange S)) = Some b
           \<and> LocationToToken s (case getQualifierLoc S of Some Q \<Rightarrow> NNS_getBeginLoc Q
                                  | None \<Rightarrow> getMemberLoc S) = Some q
           \<and> LocationToToken s (getMemberLoc S) = Some m
           \<and> LocationToToken s (getEndLoc S) = Some l
           \<and> q \<le> m \<and> m \<le> l
           \<and> pendingIn (b, q) (Trees s) = [(b, nb), (t, n)]
           \<and> Nodes s (StmtPtr (IgnoreImplicit (getBase S))) = Some nb
           \<and> nb < NextFree s \<and> n < NextFree s
           \<longrightarrow> children (Store s' (Suc (Suc (NextFree s)))) = [nb, n, Suc (NextFree s)]
             \<and> Role (Store s' nb) = MemberExpression_object
             \<and> Role (Store s' n) = MemberExpression_accessToken
             \<and> Role (Store s' (Suc (NextFree s))) = MemberExpression_member
             \<and> Trees s' = filter (\<lambda>x. fst x < b) (Trees s) @ (b, Suc (Suc (NextFree s)))
                            # filter (\<lambda>x. l < fst x) (Trees s)"
  proof (intro impI, elim conjE)
    let ?T = "Trees s"
    let ?IdBegin = "case getQualifierLoc S of Some Q \<Rightarrow> NNS_getBeginLoc Q
                    | None \<Rightarrow> getMemberLoc S"
    assume expl: "\<not> isImplicitAccess S"
      and sorted: "sorted_wrt (<) (map fst ?T)"
      and v: "isValid (Member_getOperatorLoc S)"
      and lt: "LocationToToken s (Member_getOperatorLoc S) = Some t"
      and lb: "LocationToToken s (getBegin (getSourceRange S)) = Some b"
      and lq: "LocationToToken s ?IdBegin = Some q"
      and lm: "LocationToToken s (getMemberLoc S) = Some m"
      and ll: "LocationToToken s (getEndLoc S) = Some l"
      and qm: "q \<le> m" and ml: "m \<le> l"
      and pend: "pendingIn (b, q) ?T = [(b, nb), (t, n)]"
      and base: "Nodes s (StmtPtr (IgnoreImplicit (getBase S))) = Some nb"
      and nbl: "nb < NextFree s" and nl: "n < NextFree s"
    from member_expression_built [OF run sorted] expl obtain R1 R2 R3 where
      g1: "getRange s (getMemberLoc S, getEndLoc S) = Inr R1"
      and g2: "getRange2 s ?IdBegin (getEndLoc S) = Inr R2"
      and g3: "getExprRange s S = Inr R3"
      and c: "children (Store s' (Suc (Suc (NextFree s))))
                = map snd (pendingIn R3
                    (foldInto R2 (Suc (NextFree s)) (foldInto R1 (NextFree s) ?T)))"
      and tr: "Trees s' = foldInto R3 (Suc (Suc (NextFree s)))
                    (foldInto R2 (Suc (NextFree s)) (foldInto R1 (NextFree s) ?T))"
      by auto
    have R1: "R1 = (m, Suc l)"
      using getRange_fst [of s "(getMemberLoc S, getEndLoc S)" "fst R1" "snd R1"]
        getRange_snd [of s "(getMemberLoc S, getEndLoc S)" "fst R1" "snd R1"] g1 lm ll
      by (cases R1) (auto simp: getBegin_def getEnd_def)
    have R2: "R2 = (q, Suc l)"
      using getRange2_fst [of s ?IdBegin "getEndLoc S" "fst R2" "snd R2"]
        getRange2_snd [of s ?IdBegin "getEndLoc S" "fst R2" "snd R2"] g2 lq ll
      by (cases R2) auto
    have R3: "R3 = (b, Suc l)"
      using getRange_fst [of s "getSourceRange S" "fst R3" "snd R3"]
        getRange_snd [of s "getSourceRange S" "fst R3" "snd R3"] g3 lb ll
      by (cases R3) (auto simp: getExprRange_def getEndLoc_def)
    have "(b, nb) \<in> set (pendingIn (b, q) ?T)" "(t, n) \<in> set (pendingIn (b, q) ?T)"
      unfolding pend by simp_all
    then have bq: "b < q" and tq: "t < q" and mem: "(t, n) \<in> set ?T"
      by (simp_all add: pendingIn_def)
    let ?T1 = "foldInto (m, Suc l) (NextFree s) ?T"
    have s1: "sorted_wrt (<) (map fst ?T1)" by (rule sorted_foldInto [OF sorted])
    have "pendingIn (b, Suc l) (foldInto (q, Suc l) (Suc (NextFree s)) ?T1)
        = pendingIn (b, q) ?T1 @ [(q, Suc (NextFree s))]"
      using bq qm ml by (intro pendingIn_foldInto [OF s1]) simp_all
    also have "pendingIn (b, q) ?T1 = pendingIn (b, q) ?T"
      using qm ml by (intro pendingIn_before [OF sorted]) simp_all
    finally have C: "children (Store s' (Suc (Suc (NextFree s)))) = [nb, n, Suc (NextFree s)]"
      unfolding c R1 R2 R3 pend by simp
    have "foldInto (b, Suc l) (Suc (Suc (NextFree s)))
            (foldInto (q, Suc l) (Suc (NextFree s)) ?T1)
        = foldInto (b, Suc l) (Suc (Suc (NextFree s))) ?T1"
      using bq qm ml by (intro foldInto_foldInto [OF s1]) simp_all
    also have "\<dots> = foldInto (b, Suc l) (Suc (Suc (NextFree s))) ?T"
      using bq qm ml by (intro foldInto_foldInto [OF sorted]) simp_all
    also have "\<dots> = filter (\<lambda>x. fst x < b) ?T @ (b, Suc (Suc (NextFree s)))
                            # filter (\<lambda>x. Suc l \<le> fst x) ?T"
      using bq qm ml by (intro foldInto_parts [OF sorted]) simp
    also have "filter (\<lambda>x. Suc l \<le> fst x) ?T = filter (\<lambda>x. l < fst x) ?T"
      by (auto intro!: filter_cong)
    finally have T: "Trees s' = filter (\<lambda>x. fst x < b) ?T @ (b, Suc (Suc (NextFree s)))
                            # filter (\<lambda>x. l < fst x) ?T"
      unfolding tr R1 R2 R3 .
    note M = member_expression_marks [OF run, of t n, THEN conjunct2, rule_format, OF expl]
    have r3: "Role (Store s' (Suc (NextFree s))) = MemberExpression_member"
      using M by blast
    have r1: "Role (Store s' nb) = MemberExpression_object"
      using M base nbl by auto
    have tm: "\<forall>b. LocationToToken s (getMemberLoc S) = Some b \<longrightarrow> t < b"
      using lm tq qm by simp
    have tQ: "\<forall>Q b. getQualifierLoc S = Some Q
                        \<and> LocationToToken s (NNS_getBeginLoc Q) = Some b \<longrightarrow> t < b"
      using lq tq by auto
    have r2: "Role (Store s' n) = MemberExpression_accessToken"
      using M v lt sorted mem nl tm tQ by blast
    show "children (Store s' (Suc (Suc (NextFree s)))) = [nb, n, Suc (NextFree s)]
             \<and> Role (Store s' nb) = MemberExpression_object
             \<and> Role (Store s' n) = MemberExpression_accessToken
             \<and> Role (Store s' (Suc (NextFree s))) = MemberExpression_member
             \<and> Trees s' = filter (\<lambda>x. fst x < b) (Trees s) @ (b, Suc (Suc (NextFree s)))
                            # filter (\<lambda>x. l < fst x) (Trees s)"
      using C r1 r2 r3 T by (intro conjI)
  qed
qed

lemmas eval_id = buildIdExpression_def markChild_def setRole_def getEndLoc_def
  WalkUpFromMemberExpr_def markExprChild_def

lemma member_ready_eval:
  "NextFree member_ready = 6"
  "Trees member_ready = [(0, 5), (1, 1), (2, 2), (3, 3)]"
  "Nodes member_ready (StmtPtr 1) = Some 5"
  "LocationToToken member_ready 2 = Some 1"
  "LocationToToken member_ready 3 = Some 2"
  "LocationToToken member_ready 1 = Some 0"
  "getRange member_ready (3, 3) = Inr (2, 3)"
  "getRange2 member_ready 3 3 = Inr (2, 3)"
  by (simp_all add: member_ready_def member_arena_def eval_init eval_range eval_walk eval_id
        upt_rec)


lemma upt_length_3:
  "map f [a..<b] = [x, y, z] \<Longrightarrow> b = a + 3"
  by (drule arg_cong [where f = length]) simp

lemma upt_length_2:
  "map f [a..<b] = [x, y] \<Longrightarrow> b = a + 2"
  by (drule arg_cong [where f = length]) simp

theorem C8_member_expression_witness:
  "(\<exists>s'. WalkUpFromMemberExpr member_a_b member_ready = Inr (True, s')
      \<and> map (\<lambda>n. Kind (Store s' n)) [6..<9] = [UnqualifiedId, IdExpression, MemberExpression]
      \<and> Nodes s' (StmtPtr 2) = Some 8
      \<and> Role (Store s' 7) = MemberExpression_member
      \<and> Role (Store s' 5) = MemberExpression_object
      \<and> Role (Store s' 1) = MemberExpression_accessToken
      \<and> children (Store s' 8) = [5, 1, 7]
      \<and> children (Store s' 7) = [6]
      \<and> children (Store s' 6) = [2]
      \<and> Role (Store s' 6) = IdExpression_id
      \<and> Trees s' = [(0, 8), (3, 3)])
   \<and> (\<exists>s'. WalkUpFromMemberExpr implicit_member_x (projr (TreeBuilder_init expr_stmt_arena))
             = Inr (True, s')
      \<and> map (\<lambda>n. Kind (Store s' n)) [2..<4] = [UnqualifiedId, IdExpression]
      \<and> Nodes s' (StmtPtr 9) = Some 3
      \<and> children (Store s' 3) = [2]
      \<and> children (Store s' 2) = [0]
      \<and> Trees s' = [(0, 3), (1, 1)])"
proof -
  obtain s1 where W1: "WalkUpFromMemberExpr member_a_b member_ready = Inr (True, s1)"
    by (simp add: member_ready_def member_arena_def member_a_b_def expr_x_def eval_init
          eval_range eval_walk eval_id upt_rec)
  have M: "\<not> isImplicitAccess member_a_b" "stmtPtr member_a_b = 2"
    "IgnoreImplicit (getBase member_a_b) = 1" "Member_getOperatorLoc member_a_b = 2"
    "getMemberLoc member_a_b = 3" "getQualifierLoc member_a_b = None"
    "getBegin (getSourceRange member_a_b) = 1" "getEndLoc member_a_b = 3"
    by (simp_all add: member_a_b_def expr_x_def getBegin_def getEnd_def getEndLoc_def)
  have E: "sorted_wrt (<) (map fst (Trees member_ready))"
    "pendingIn (0, 2) (Trees member_ready) = [(0, 5), (1, 1)]"
    by (simp_all add: member_ready_eval pendingIn_def)
  note C = C8_member_expression [OF W1, where t = 1 and n = 1 and b = 0 and q = 2 and m = 2
      and l = 2 and nb = 5]
  from C M(1) have "map (\<lambda>n. Kind (Store s1 n)) [NextFree member_ready..<NextFree s1]
      = [UnqualifiedId, IdExpression, MemberExpression]"
    by blast
  from upt_length_3 [OF this] have nf1: "NextFree s1 = 9"
    using member_ready_eval(1) by simp
  have 1: "map (\<lambda>n. Kind (Store s1 n)) [6..<9] = [UnqualifiedId, IdExpression, MemberExpression]
      \<and> Nodes s1 (StmtPtr 2) = Some 8
      \<and> Role (Store s1 7) = MemberExpression_member
      \<and> Role (Store s1 5) = MemberExpression_object
      \<and> Role (Store s1 1) = MemberExpression_accessToken"
    using C [THEN conjunct2, THEN conjunct1] M member_ready_eval nf1
    by (simp add: isValid_def)
  have H: "\<not> isImplicitAccess member_a_b
           \<and> sorted_wrt (<) (map fst (Trees member_ready))
           \<and> isValid (Member_getOperatorLoc member_a_b)
           \<and> LocationToToken member_ready (Member_getOperatorLoc member_a_b) = Some 1
           \<and> LocationToToken member_ready (getBegin (getSourceRange member_a_b)) = Some 0
           \<and> LocationToToken member_ready
                (case getQualifierLoc member_a_b of Some Q \<Rightarrow> NNS_getBeginLoc Q
                 | None \<Rightarrow> getMemberLoc member_a_b) = Some 2
           \<and> LocationToToken member_ready (getMemberLoc member_a_b) = Some 2
           \<and> LocationToToken member_ready (getEndLoc member_a_b) = Some 2
           \<and> (2 :: nat) \<le> 2 \<and> (2 :: nat) \<le> 2
           \<and> pendingIn (0, 2) (Trees member_ready) = [(0, 5), (1, 1)]
           \<and> Nodes member_ready (StmtPtr (IgnoreImplicit (getBase member_a_b))) = Some 5
           \<and> 5 < NextFree member_ready \<and> 1 < NextFree member_ready"
    using member_ready_eval(3,6) by (simp add: M E member_ready_eval(1,4,5) isValid_def)
  note Cs = C [THEN conjunct2, THEN conjunct2, THEN conjunct2, rule_format, OF H]
  have 2: "children (Store s1 8) = [5, 1, 7] \<and> Trees s1 = [(0, 8), (3, 3)]"
    using Cs by (simp add: member_ready_eval(1,2))
  note Cb = C [THEN conjunct2, THEN conjunct2, THEN conjunct1, rule_format, OF E(1)]
  from Cb obtain R1 R2 where
    a: "getRange member_ready (getMemberLoc member_a_b, getEndLoc member_a_b) = Inr R1"
    and b: "getRange2 member_ready
              (case getQualifierLoc member_a_b of Some Q \<Rightarrow> NNS_getBeginLoc Q
               | None \<Rightarrow> getMemberLoc member_a_b) (getEndLoc member_a_b) = Inr R2"
    and c6: "children (Store s1 (NextFree member_ready))
              = map snd (pendingIn R1 (Trees member_ready))"
    and r6: "Role (Store s1 (NextFree member_ready)) = IdExpression_id"
    and c7: "children (Store s1 (Suc (NextFree member_ready)))
              = map snd (pendingIn R2 (foldInto R1 (NextFree member_ready) (Trees member_ready)))"
    by blast
  have R1: "R1 = (2, 3)" using a by (simp add: M member_ready_eval(7))
  have R2: "R2 = (2, 3)" using b by (simp add: M member_ready_eval(8))
  have 3: "children (Store s1 7) = [6] \<and> children (Store s1 6) = [2]
      \<and> Role (Store s1 6) = IdExpression_id"
    using c6 c7 r6 unfolding R1 R2 member_ready_eval(1,2)
    by (simp add: pendingIn_def foldInto_def)
  let ?s = "projr (TreeBuilder_init expr_stmt_arena)"
  obtain s2 where W2: "WalkUpFromMemberExpr implicit_member_x ?s = Inr (True, s2)"
    by (simp add: expr_stmt_arena_def implicit_member_x_def eval_init
          eval_range eval_walk eval_id upt_rec)
  have I: "isImplicitAccess implicit_member_x" "stmtPtr implicit_member_x = 9"
    "getMemberLoc implicit_member_x = 1" "getQualifierLoc implicit_member_x = None"
    "getEndLoc implicit_member_x = 1"
    by (simp_all add: implicit_member_x_def getEnd_def getEndLoc_def)
  have nfs: "NextFree ?s = 2" "Trees ?s = [(0, 0), (1, 1)]"
    "getRange ?s (1, 1) = Inr (0, 1)" "getRange2 ?s 1 1 = Inr (0, 1)"
    by (simp_all add: expr_stmt_arena_def eval_init eval_range upt_rec)
  note D = C8_member_expression [OF W2, where t = 0 and n = 0 and b = 0 and q = 0 and m = 0
      and l = 0 and nb = 0]
  from D I(1) have "map (\<lambda>n. Kind (Store s2 n)) [NextFree ?s..<NextFree s2]
      = [UnqualifiedId, IdExpression]"
    by blast
  from upt_length_2 [OF this] have nf2: "NextFree s2 = 4"
    using nfs by simp
  have 4: "map (\<lambda>n. Kind (Store s2 n)) [2..<4] = [UnqualifiedId, IdExpression]
      \<and> Nodes s2 (StmtPtr 9) = Some 3"
    using D [THEN conjunct1] I nf2 nfs by simp
  have so: "sorted_wrt (<) (map fst (Trees ?s))" by (simp add: nfs(2))
  note Db = D [THEN conjunct2, THEN conjunct2, THEN conjunct1, rule_format, OF so]
  from Db obtain Q1 Q2 where
    a': "getRange ?s (getMemberLoc implicit_member_x, getEndLoc implicit_member_x) = Inr Q1"
    and b': "getRange2 ?s
              (case getQualifierLoc implicit_member_x of Some Q \<Rightarrow> NNS_getBeginLoc Q
               | None \<Rightarrow> getMemberLoc implicit_member_x) (getEndLoc implicit_member_x) = Inr Q2"
    and c2: "children (Store s2 (NextFree ?s)) = map snd (pendingIn Q1 (Trees ?s))"
    and c3: "children (Store s2 (Suc (NextFree ?s)))
              = map snd (pendingIn Q2 (foldInto Q1 (NextFree ?s) (Trees ?s)))"
    and t2: "if isImplicitAccess implicit_member_x
             then Trees s2 = foldInto Q2 (Suc (NextFree ?s)) (foldInto Q1 (NextFree ?s) (Trees ?s))
             else \<exists>R3. getExprRange ?s implicit_member_x = Inr R3
                 \<and> children (Store s2 (Suc (Suc (NextFree ?s))))
                     = map snd (pendingIn R3
                         (foldInto Q2 (Suc (NextFree ?s)) (foldInto Q1 (NextFree ?s) (Trees ?s))))
                 \<and> Trees s2 = foldInto R3 (Suc (Suc (NextFree ?s)))
                     (foldInto Q2 (Suc (NextFree ?s)) (foldInto Q1 (NextFree ?s) (Trees ?s)))"
    by blast
  have Q1: "Q1 = (0, 1)" using a' nfs(3) by (simp add: I)
  have Q2: "Q2 = (0, 1)" using b' nfs(4) by (simp add: I)
  have t2': "Trees s2 = foldInto Q2 (Suc (NextFree ?s)) (foldInto Q1 (NextFree ?s) (Trees ?s))"
    using t2 I(1) by simp
  have 5: "children (Store s2 3) = [2] \<and> children (Store s2 2) = [0]
      \<and> Trees s2 = [(0, 3), (1, 1)]"
    using c2 c3 t2' unfolding Q1 Q2 nfs(1,2)
    by (simp add: pendingIn_def foldInto_def)
  have A: "\<exists>s'. WalkUpFromMemberExpr member_a_b member_ready = Inr (True, s')
      \<and> map (\<lambda>n. Kind (Store s' n)) [6..<9] = [UnqualifiedId, IdExpression, MemberExpression]
      \<and> Nodes s' (StmtPtr 2) = Some 8
      \<and> Role (Store s' 7) = MemberExpression_member
      \<and> Role (Store s' 5) = MemberExpression_object
      \<and> Role (Store s' 1) = MemberExpression_accessToken
      \<and> children (Store s' 8) = [5, 1, 7]
      \<and> children (Store s' 7) = [6]
      \<and> children (Store s' 6) = [2]
      \<and> Role (Store s' 6) = IdExpression_id
      \<and> Trees s' = [(0, 8), (3, 3)]"
    using W1 1 2 3 by (intro exI [of _ s1]) simp
  have B: "\<exists>s'. WalkUpFromMemberExpr implicit_member_x ?s = Inr (True, s')
      \<and> map (\<lambda>n. Kind (Store s' n)) [2..<4] = [UnqualifiedId, IdExpression]
      \<and> Nodes s' (StmtPtr 9) = Some 3
      \<and> children (Store s' 3) = [2]
      \<and> children (Store s' 2) = [0]
      \<and> Trees s' = [(0, 3), (1, 1)]"
    using W2 4 5 by (intro exI [of _ s2]) simp
  show ?thesis using A B by (rule conjI)
qed

subsection \<open>Overloaded operator calls\<close>

lemma traverseArguments_filter:
  assumes "getOperatorNodeKind S = Inr PostfixUnaryOperatorExpression
      \<or> (\<forall>a \<in> set args. \<not> isInvalidRange (getSourceRange a))"
  shows "traverseArguments RAV S args s =
    traverseAll RAV (filter (\<lambda>a. \<not> isInvalidRange (getSourceRange a)) args) s"
  using assms
proof (induction args arbitrary: s)
  case Nil
  then show ?case by simp
next
  case (Cons child rest)
  have IH: "\<And>s'. traverseArguments RAV S rest s' =
    traverseAll RAV (filter (\<lambda>a. \<not> isInvalidRange (getSourceRange a)) rest) s'"
    using Cons by auto
  show ?case
  proof (cases "isInvalidRange (getSourceRange child)")
    case True
    then have "getOperatorNodeKind S = Inr PostfixUnaryOperatorExpression"
      using Cons.prems by auto
    then show ?thesis using True IH by (simp add: bind_def)
  next
    case False
    then show ?thesis using IH by (simp cong: if_cong)
  qed
qed

lemma WalkUp_postfix:
  assumes K: "getOperatorNodeKind S = Inr PostfixUnaryOperatorExpression"
    and run: "WalkUpFromCXXOperatorCallExpr S s = Inr (ok, s')"
  shows "map (\<lambda>n. Kind (Store s' n)) [NextFree s..<NextFree s'] = [PostfixUnaryOperatorExpression]"
    and "Nodes s' = (Nodes s)(StmtPtr (stmtPtr S) \<mapsto> NextFree s)"
proof -
  from run K have "bind (markChildToken (getOperatorLoc S) OperatorExpression_operatorToken s) (\<lambda>s1.
        bind (getArg S 0) (\<lambda>A0.
        bind (markExprChild (Some A0) UnaryOperatorExpression_operand s1) (\<lambda>s2.
          let (New, s3) = allocate PostfixUnaryOperatorExpression s2 in
          bind (getExprRange s3 S) (\<lambda>Rng.
          bind (foldNode Rng New (Some (StmtPtr (stmtPtr S))) s3) (\<lambda>s4.
            Inr (True, s4)))))) = Inr (ok, s')"
    by (simp add: WalkUpFromCXXOperatorCallExpr_def bind_def)
  then obtain s1 where
    m1: "markChildToken (getOperatorLoc S) OperatorExpression_operatorToken s = Inr s1"
    and r1: "bind (getArg S 0) (\<lambda>A0.
        bind (markExprChild (Some A0) UnaryOperatorExpression_operand s1) (\<lambda>s2.
          let (New, s3) = allocate PostfixUnaryOperatorExpression s2 in
          bind (getExprRange s3 S) (\<lambda>Rng.
          bind (foldNode Rng New (Some (StmtPtr (stmtPtr S))) s3) (\<lambda>s4.
            Inr (True, s4))))) = Inr (ok, s')"
    by (rule bindE)
  from r1 obtain A0 where "getArg S 0 = Inr A0" and
    r2: "bind (markExprChild (Some A0) UnaryOperatorExpression_operand s1) (\<lambda>s2.
          let (New, s3) = allocate PostfixUnaryOperatorExpression s2 in
          bind (getExprRange s3 S) (\<lambda>Rng.
          bind (foldNode Rng New (Some (StmtPtr (stmtPtr S))) s3) (\<lambda>s4.
            Inr (True, s4)))) = Inr (ok, s')"
    by (rule bindE)
  from r2 obtain s2 where
    m2: "markExprChild (Some A0) UnaryOperatorExpression_operand s1 = Inr s2"
    and r3: "(let (New, s3) = allocate PostfixUnaryOperatorExpression s2 in
          bind (getExprRange s3 S) (\<lambda>Rng.
          bind (foldNode Rng New (Some (StmtPtr (stmtPtr S))) s3) (\<lambda>s4.
            Inr (True, s4)))) = Inr (ok, s')"
    by (rule bindE)
  obtain New s3 where al: "allocate PostfixUnaryOperatorExpression s2 = (New, s3)"
    by (cases "allocate PostfixUnaryOperatorExpression s2")
  from r3 al have "bind (getExprRange s3 S) (\<lambda>Rng.
          bind (foldNode Rng New (Some (StmtPtr (stmtPtr S))) s3) (\<lambda>s4.
            Inr (True, s4))) = Inr (ok, s')"
    by simp
  then obtain Rng where "getExprRange s3 S = Inr Rng" and
    r4: "bind (foldNode Rng New (Some (StmtPtr (stmtPtr S))) s3) (\<lambda>s4. Inr (True, s4))
          = Inr (ok, s')"
    by (rule bindE)
  from r4 obtain s4 where f: "foldNode Rng New (Some (StmtPtr (stmtPtr S))) s3 = Inr s4"
    and "Inr (True, s4) = (Inr (ok, s') :: error + bool \<times> TreeBuilder)"
    by (rule bindE)
  then have fin: "s4 = s'" by simp
  note M1 = markChildToken_grows [OF m1]
  note M2 = markExprChild_marks [OF m2]
  note AL = allocate_grows [OF al]
  note F = foldNode_grows [OF f [unfolded fin]]
  have G: "grows s ([] @ [] @ [PostfixUnaryOperatorExpression] @ []) s'"
    by (intro grows_trans [OF M1(1)] grows_trans [OF M2(1)] grows_trans [OF AL(2)] F(1))
  show "map (\<lambda>n. Kind (Store s' n)) [NextFree s..<NextFree s'] = [PostfixUnaryOperatorExpression]"
    using grows_kinds [OF G] by simp
  have "NextFree s2 = NextFree s"
    using grows_NextFree [OF M1(1)] grows_NextFree [OF M2(1)] by simp
  moreover have "Nodes s3 = Nodes s" using M1(3) M2(3) AL(4) by simp
  ultimately show "Nodes s' = (Nodes s)(StmtPtr (stmtPtr S) \<mapsto> NextFree s)"
    using F(2) AL(1) by simp
qed

text \<open>
  Claim C7. When the call is a postfix one or no argument has an invalid source range, the
  traversal of an overloaded operator call is the traversal of its arguments with a valid
  source range, in order, followed by the handler of the call: the arguments with an
  invalid range are passed over. For \<open>++\<close> or \<open>--\<close> with a written operand and the
  placeholder, the call is classified as postfix and only the operand is traversed, whatever
  the traversal would do with the placeholder. The handler of a postfix call, when it
  succeeds, allocates the \<open>PostfixUnaryOperatorExpression\<close> node and no other, and records it
  for the call and for nothing else, so no node stands for the placeholder.
\<close>

theorem C7_operator_call_arguments:
  "(getOperatorNodeKind S = Inr PostfixUnaryOperatorExpression
      \<or> (\<forall>a \<in> set (arguments S). \<not> isInvalidRange (getSourceRange a))
     \<longrightarrow> TraverseCXXOperatorCallExpr RAV S s =
          bind (traverseAll RAV
                  (filter (\<lambda>a. \<not> isInvalidRange (getSourceRange a)) (arguments S)) s)
            (\<lambda>(ok, s'). if \<not> ok then Inr (False, s') else WalkUpFromCXXOperatorCallExpr S s'))
   \<and> (getOperator S \<in> {OO_PlusPlus, OO_MinusMinus} \<and> arguments S = [a, phantom]
        \<and> \<not> isInvalidRange (getSourceRange a) \<and> isInvalidRange (getSourceRange phantom)
     \<longrightarrow> getOperatorNodeKind S = Inr PostfixUnaryOperatorExpression
        \<and> TraverseCXXOperatorCallExpr RAV S s =
            bind (RAV (Some (IgnoreImplicit a)) s)
              (\<lambda>(ok, s'). if \<not> ok then Inr (False, s') else WalkUpFromCXXOperatorCallExpr S s'))
   \<and> (getOperatorNodeKind S = Inr PostfixUnaryOperatorExpression
        \<and> WalkUpFromCXXOperatorCallExpr S s1 = Inr (ok, s2)
     \<longrightarrow> map (\<lambda>n. Kind (Store s2 n)) [NextFree s1..<NextFree s2]
            = [PostfixUnaryOperatorExpression]
        \<and> Nodes s2 = (Nodes s1)(StmtPtr (stmtPtr S) \<mapsto> NextFree s1))"
proof (intro conjI impI)
  assume "getOperatorNodeKind S = Inr PostfixUnaryOperatorExpression
      \<or> (\<forall>a \<in> set (arguments S). \<not> isInvalidRange (getSourceRange a))"
  from traverseArguments_filter [OF this]
  show "TraverseCXXOperatorCallExpr RAV S s =
          bind (traverseAll RAV
                  (filter (\<lambda>a. \<not> isInvalidRange (getSourceRange a)) (arguments S)) s)
            (\<lambda>(ok, s'). if \<not> ok then Inr (False, s') else WalkUpFromCXXOperatorCallExpr S s')"
    by (simp add: TraverseCXXOperatorCallExpr_def)
next
  assume A: "getOperator S \<in> {OO_PlusPlus, OO_MinusMinus} \<and> arguments S = [a, phantom]
        \<and> \<not> isInvalidRange (getSourceRange a) \<and> isInvalidRange (getSourceRange phantom)"
  then show K: "getOperatorNodeKind S = Inr PostfixUnaryOperatorExpression"
    by (auto simp: getOperatorNodeKind_def getNumArgs_def)
  have "traverseArguments RAV S (arguments S) s =
    traverseAll RAV (filter (\<lambda>a. \<not> isInvalidRange (getSourceRange a)) (arguments S)) s"
    using K by (intro traverseArguments_filter) simp
  also have "\<dots> = bind (RAV (Some (IgnoreImplicit a)) s)
      (\<lambda>(ok, s'). if \<not> ok then Inr (False, s') else Inr (True, s'))"
    using A by (auto simp: TraverseStmt_def bind_def split: sum.splits)
  finally show "TraverseCXXOperatorCallExpr RAV S s =
            bind (RAV (Some (IgnoreImplicit a)) s)
              (\<lambda>(ok, s'). if \<not> ok then Inr (False, s') else WalkUpFromCXXOperatorCallExpr S s')"
    by (auto simp: TraverseCXXOperatorCallExpr_def bind_def split: sum.splits)
next
  assume "getOperatorNodeKind S = Inr PostfixUnaryOperatorExpression
        \<and> WalkUpFromCXXOperatorCallExpr S s1 = Inr (ok, s2)"
  then have K: "getOperatorNodeKind S = Inr PostfixUnaryOperatorExpression"
    and W: "WalkUpFromCXXOperatorCallExpr S s1 = Inr (ok, s2)"
    by blast+
  show "map (\<lambda>n. Kind (Store s2 n)) [NextFree s1..<NextFree s2]
            = [PostfixUnaryOperatorExpression]"
    by (rule WalkUp_postfix(1) [OF K W])
  show "Nodes s2 = (Nodes s1)(StmtPtr (stmtPtr S) \<mapsto> NextFree s1)"
    by (rule WalkUp_postfix(2) [OF K W])
qed


theorem C7_operator_call_arguments_witness:
  "\<exists>s'. TraverseCXXOperatorCallExpr only_operand postfix_increment_call
           (projr (TreeBuilder_init incr_arena)) = Inr (True, s')
      \<and> Kind (Store s' 5) = PostfixUnaryOperatorExpression
      \<and> children (Store s' 5) = [4, 1]
      \<and> Nodes s' (StmtPtr 3) = Some 5
      \<and> Nodes s' (StmtPtr 2) = None"
proof -
  let ?s = "projr (TreeBuilder_init incr_arena)"
  let ?a = "\<lparr>stmtPtr = 1, getStmtClass = DeclRefExprClass, getSourceRange = (10, 10),
             IgnoreImplicit = 1\<rparr>"
  let ?p = "\<lparr>stmtPtr = 2, getStmtClass = IntegerLiteralClass, getSourceRange = (0, 0),
             IgnoreImplicit = 2\<rparr>"
  have A: "getOperator postfix_increment_call \<in> {OO_PlusPlus, OO_MinusMinus}
      \<and> arguments postfix_increment_call = [?a, ?p]
      \<and> \<not> isInvalidRange (getSourceRange ?a) \<and> isInvalidRange (getSourceRange ?p)"
    by (simp add: postfix_increment_call_def isInvalidRange_def isValidRange_def isValid_def
          getBegin_def getEnd_def)
  from C7_operator_call_arguments [of postfix_increment_call only_operand ?s ?a ?p] A
  have T: "TraverseCXXOperatorCallExpr only_operand postfix_increment_call ?s =
      bind (only_operand (Some (IgnoreImplicit ?a)) ?s)
        (\<lambda>(ok, s'). if \<not> ok then Inr (False, s')
                     else WalkUpFromCXXOperatorCallExpr postfix_increment_call s')"
    by blast
  have "\<exists>s'. bind (only_operand (Some (IgnoreImplicit ?a)) ?s)
        (\<lambda>(ok, s'). if \<not> ok then Inr (False, s')
                     else WalkUpFromCXXOperatorCallExpr postfix_increment_call s')
        = Inr (True, s')
      \<and> Kind (Store s' 5) = PostfixUnaryOperatorExpression
      \<and> children (Store s' 5) = [4, 1]
      \<and> Nodes s' (StmtPtr 3) = Some 5
      \<and> Nodes s' (StmtPtr 2) = None"
    by (simp add: only_operand_def incr_arena_def postfix_increment_call_def eval_init
          eval_range eval_walk eval_id WalkUpFromCXXOperatorCallExpr_def
          getOperatorNodeKind_def getNumArgs_def getArg_def upt_rec)
  then show ?thesis unfolding T .
qed

subsection \<open>Declarator chains\<close>

lemma chain_not_Nil: "chain T D \<noteq> []"
  by (induction T D rule: chain.induct) simp_all

lemma chain_responsible:
  "filter (isResponsibleForCreatingDeclaration T) (chain T D) = [last (chain T D)]"
proof (induction T D rule: chain.induct)
  case (1 T i)
  then show ?case by (simp add: isResponsibleForCreatingDeclaration_def)
next
  case (2 T i Next)
  show ?case
  proof (cases "isaT T (getKind (info Next))
        \<and> getBeginLoc_T T Next = getBeginLoc_T T (Decl i (Some Next))")
    case True
    then have "\<not> isResponsibleForCreatingDeclaration T (Decl i (Some Next))"
      by (simp add: isResponsibleForCreatingDeclaration_def)
    moreover have "chain T (Decl i (Some Next)) = Decl i (Some Next) # chain T Next"
      using True by simp
    moreover have "filter (isResponsibleForCreatingDeclaration T) (chain T Next)
        = [last (chain T Next)]"
      using True 2 by simp
    ultimately show ?thesis using chain_not_Nil [of T Next] by simp
  next
    case False
    then have "isResponsibleForCreatingDeclaration T (Decl i (Some Next))"
      by (auto simp add: isResponsibleForCreatingDeclaration_def)
    moreover have "chain T (Decl i (Some Next)) = [Decl i (Some Next)]"
      using False by auto
    ultimately show ?thesis by simp
  qed
qed

lemma declarator_step:
  assumes "(if isValid (getBegin Rng) then
             (let (N, s1) = allocate SimpleDeclarator s in
              bind (getRange s1 Rng) (\<lambda>R.
              bind (foldNode R N None s1) (\<lambda>s2.
                markChild N SimpleDeclaration_declarator s2)))
           else Inr s) = Inr s3"
  shows "grows s (if isValid (getBegin Rng) then [SimpleDeclarator] else []) s3"
    and "Nodes s3 = Nodes s"
    and "isValid (getBegin Rng) \<Longrightarrow> Role (Store s3 (NextFree s)) = SimpleDeclaration_declarator"
proof -
  have "grows s (if isValid (getBegin Rng) then [SimpleDeclarator] else []) s3
      \<and> Nodes s3 = Nodes s
      \<and> (isValid (getBegin Rng) \<longrightarrow> Role (Store s3 (NextFree s)) = SimpleDeclaration_declarator)"
  proof (cases "isValid (getBegin Rng)")
    case False
    then show ?thesis using assms by (simp add: grows_refl)
  next
    case True
    obtain N s1 where al: "allocate SimpleDeclarator s = (N, s1)"
      by (cases "allocate SimpleDeclarator s")
    from assms True al have "bind (getRange s1 Rng) (\<lambda>R.
              bind (foldNode R N None s1) (\<lambda>s2.
                markChild N SimpleDeclaration_declarator s2)) = Inr s3"
      by simp
    then obtain R where "getRange s1 Rng = Inr R"
      and r: "bind (foldNode R N None s1) (\<lambda>s2.
                markChild N SimpleDeclaration_declarator s2) = Inr s3"
      by (rule bindE)
    from r obtain s2 where f: "foldNode R N None s1 = Inr s2"
      and m: "markChild N SimpleDeclaration_declarator s2 = Inr s3"
      by (rule bindE)
    note AL = allocate_grows [OF al]
    note F = foldNode_grows [OF f]
    note M = setRole_grows [OF m [unfolded markChild_def]]
    have "grows s ([SimpleDeclarator] @ [] @ []) s3"
      by (intro grows_trans [OF AL(2)] grows_trans [OF F(1)] M(1))
    moreover have "Nodes s3 = Nodes s" using AL(4) F(2) M(3) by simp
    moreover have "Role (Store s3 (NextFree s)) = SimpleDeclaration_declarator"
      using M(5) AL(1) by simp
    ultimately show ?thesis using True by simp
  qed
  then show "grows s (if isValid (getBegin Rng) then [SimpleDeclarator] else []) s3"
    and "Nodes s3 = Nodes s"
    and "isValid (getBegin Rng) \<Longrightarrow> Role (Store s3 (NextFree s)) = SimpleDeclaration_declarator"
    by simp_all
qed

lemma declaration_step:
  assumes "(if resp then
             (let (N2, s4) = allocate SimpleDeclaration s3 in
              bind (getDeclarationRange s4 D) (\<lambda>R2.
                foldNode R2 N2 (Some P) s4))
           else Inr s3) = Inr s5"
  shows "grows s3 (if resp then [SimpleDeclaration] else []) s5"
    and "Nodes s5 = (if resp then (Nodes s3)(P \<mapsto> NextFree s3) else Nodes s3)"
proof -
  have "grows s3 (if resp then [SimpleDeclaration] else []) s5
      \<and> Nodes s5 = (if resp then (Nodes s3)(P \<mapsto> NextFree s3) else Nodes s3)"
  proof (cases resp)
    case False
    then show ?thesis using assms by (simp add: grows_refl)
  next
    case True
    obtain N2 s4 where al: "allocate SimpleDeclaration s3 = (N2, s4)"
      by (cases "allocate SimpleDeclaration s3")
    from assms True al have "bind (getDeclarationRange s4 D) (\<lambda>R2.
                foldNode R2 N2 (Some P) s4) = Inr s5"
      by simp
    then obtain R2 where "getDeclarationRange s4 D = Inr R2"
      and f: "foldNode R2 N2 (Some P) s4 = Inr s5"
      by (rule bindE)
    note AL = allocate_grows [OF al]
    note F = foldNode_grows [OF f]
    have "grows s3 ([SimpleDeclaration] @ []) s5"
      by (intro grows_trans [OF AL(2)] F(1))
    moreover have "Nodes s5 = (Nodes s3)(P \<mapsto> NextFree s3)"
      using AL(1,4) F(2) by simp
    ultimately show ?thesis using True by simp
  qed
  then show "grows s3 (if resp then [SimpleDeclaration] else []) s5"
    and "Nodes s5 = (if resp then (Nodes s3)(P \<mapsto> NextFree s3) else Nodes s3)"
    by simp_all
qed

lemma declarator_step_built:
  assumes d1: "(if isValid (getBegin Rng) then
             (let (N, s1) = allocate SimpleDeclarator s in
              bind (getRange s1 Rng) (\<lambda>R.
              bind (foldNode R N None s1) (\<lambda>s2.
                markChild N SimpleDeclaration_declarator s2)))
           else Inr s) = Inr s3"
    and sorted: "sorted_wrt (<) (map fst (Trees s))"
  shows "sorted_wrt (<) (map fst (Trees s3))"
    and "\<not> isValid (getBegin Rng) \<Longrightarrow> s3 = s"
    and "isValid (getBegin Rng) \<Longrightarrow>
          \<exists>R. getRange s Rng = Inr R \<and> Trees s3 = foldInto R (NextFree s) (Trees s)
            \<and> (\<forall>n. children (Store s3 n)
                    = (if n = NextFree s then map snd (pendingIn R (Trees s))
                       else children (Store s n)))"
proof -
  have "sorted_wrt (<) (map fst (Trees s3))
      \<and> (\<not> isValid (getBegin Rng) \<longrightarrow> s3 = s)
      \<and> (isValid (getBegin Rng) \<longrightarrow>
          (\<exists>R. getRange s Rng = Inr R \<and> Trees s3 = foldInto R (NextFree s) (Trees s)
            \<and> (\<forall>n. children (Store s3 n)
                    = (if n = NextFree s then map snd (pendingIn R (Trees s))
                       else children (Store s n)))))"
  proof (cases "isValid (getBegin Rng)")
    case False
    then show ?thesis using d1 sorted by simp
  next
    case True
    obtain N s1 where al: "allocate SimpleDeclarator s = (N, s1)"
      by (cases "allocate SimpleDeclarator s")
    from d1 True al have "bind (getRange s1 Rng) (\<lambda>R.
              bind (foldNode R N None s1) (\<lambda>s2.
                markChild N SimpleDeclaration_declarator s2)) = Inr s3"
      by simp
    then obtain R where g: "getRange s1 Rng = Inr R"
      and r: "bind (foldNode R N None s1) (\<lambda>s2.
                markChild N SimpleDeclaration_declarator s2) = Inr s3"
      by (rule bindE)
    from r obtain s2 where f: "foldNode R N None s1 = Inr s2"
      and m: "markChild N SimpleDeclaration_declarator s2 = Inr s3"
      by (rule bindE)
    obtain b e where R: "R = (b, e)" by (cases R)
    note AL = allocate_grows [OF al]
    note M = setRole_grows [OF m [unfolded markChild_def]]
    have s1: "sorted_wrt (<) (map fst (Trees s1))" using sorted AL(3) by simp
    note F = foldNode_sorted [OF f [unfolded R] s1]
    have "Arena s1 = Arena s" "LocationToToken s1 = LocationToToken s"
      using AL(2) by (simp_all add: grows_def)
    then have g0: "getRange s Rng = Inr R" using g range_frame(2) [of s1 s Rng] by simp
    have T: "Trees s3 = foldInto R (NextFree s) (Trees s)"
      using M(2) F(1) AL(1,3) R by simp
    have C: "children (Store s3 n)
                    = (if n = NextFree s then map snd (pendingIn R (Trees s))
                       else children (Store s n))" for n
      using setRole_children [OF m [unfolded markChild_def], of n] F(2) [of n]
        allocate_children [OF al, of n] AL(1,3) R by simp
    have "sorted_wrt (<) (map fst (Trees s3))" using F(3) M(2) by simp
    then show ?thesis using True g0 T C by blast
  qed
  then show "sorted_wrt (<) (map fst (Trees s3))"
    and "\<not> isValid (getBegin Rng) \<Longrightarrow> s3 = s"
    and "isValid (getBegin Rng) \<Longrightarrow>
          \<exists>R. getRange s Rng = Inr R \<and> Trees s3 = foldInto R (NextFree s) (Trees s)
            \<and> (\<forall>n. children (Store s3 n)
                    = (if n = NextFree s then map snd (pendingIn R (Trees s))
                       else children (Store s n)))"
    by blast+
qed

lemma declaration_step_built:
  assumes d2: "(if resp then
             (let (N2, s4) = allocate SimpleDeclaration s3 in
              bind (getDeclarationRange s4 D) (\<lambda>R2.
                foldNode R2 N2 (Some P) s4))
           else Inr s3) = Inr s5"
    and sorted: "sorted_wrt (<) (map fst (Trees s3))"
  shows "\<not> resp \<Longrightarrow> s5 = s3"
    and "resp \<Longrightarrow>
          \<exists>R2. getDeclarationRange s3 D = Inr R2
            \<and> Trees s5 = foldInto R2 (NextFree s3) (Trees s3)
            \<and> (\<forall>n. children (Store s5 n)
                    = (if n = NextFree s3 then map snd (pendingIn R2 (Trees s3))
                       else children (Store s3 n)))"
proof -
  show "\<not> resp \<Longrightarrow> s5 = s3" using d2 by simp
  show "\<exists>R2. getDeclarationRange s3 D = Inr R2
            \<and> Trees s5 = foldInto R2 (NextFree s3) (Trees s3)
            \<and> (\<forall>n. children (Store s5 n)
                    = (if n = NextFree s3 then map snd (pendingIn R2 (Trees s3))
                       else children (Store s3 n)))" if resp: resp
  proof -
    obtain N2 s4 where al: "allocate SimpleDeclaration s3 = (N2, s4)"
      by (cases "allocate SimpleDeclaration s3")
    from d2 resp al have "bind (getDeclarationRange s4 D) (\<lambda>R2.
                foldNode R2 N2 (Some P) s4) = Inr s5"
      by simp
    then obtain R2 where g: "getDeclarationRange s4 D = Inr R2"
      and f: "foldNode R2 N2 (Some P) s4 = Inr s5"
      by (rule bindE)
    obtain b e where R: "R2 = (b, e)" by (cases R2)
    note AL = allocate_grows [OF al]
    have s4: "sorted_wrt (<) (map fst (Trees s4))" using sorted AL(3) by simp
    note F = foldNode_sorted [OF f [unfolded R] s4]
    have "Arena s4 = Arena s3" "LocationToToken s4 = LocationToToken s3"
      "DeclsWithoutSemicolons s4 = DeclsWithoutSemicolons s3"
      using AL(2) by (simp_all add: grows_def)
    then have g0: "getDeclarationRange s3 D = Inr R2"
      using g range_frame(4) [of s4 s3 D] by simp
    have T: "Trees s5 = foldInto R2 (NextFree s3) (Trees s3)"
      using F(1) AL(1,3) R by simp
    have C: "children (Store s5 n)
                    = (if n = NextFree s3 then map snd (pendingIn R2 (Trees s3))
                       else children (Store s3 n))" for n
      using F(2) [of n] allocate_children [OF al, of n] AL(1,3) R by simp
    show ?thesis using g0 T C by blast
  qed
qed

text \<open>
  Claim C5. A declarator is responsible for the declaration exactly when it has no next
  sibling in its context, or the next sibling is not of the class the handler is
  instantiated with, or the next sibling begins at another location. In the chain that
  begins with a declarator exactly one declarator is responsible, the last one. When the
  handler of a declarator succeeds, the nodes it allocated are a \<open>SimpleDeclarator\<close>, if
  the declarator range begins at a valid location, and then a \<open>SimpleDeclaration\<close>, if
  the declarator is responsible, and no others; the \<open>SimpleDeclarator\<close> has the role
  \<open>SimpleDeclaration_declarator\<close>, and the \<open>SimpleDeclaration\<close> is recorded for the
  declaration. When the keys of the forest are ascending, the \<open>SimpleDeclarator\<close> is folded
  over the tokens \<open>R\<close> of the declarator range: its children are the nodes that were pending
  in \<open>R\<close>, which it replaces in the forest. Then the \<open>SimpleDeclaration\<close> of a responsible
  declarator is folded over the tokens \<open>R2\<close> of the declaration, from its start through
  this declarator and the semicolon: its children are the nodes then pending in \<open>R2\<close>,
  which it replaces in the forest; a declarator that is not responsible folds nothing else.
\<close>

theorem C5_declarator_chain:
  "(isResponsibleForCreatingDeclaration T D \<longleftrightarrow>
      (case getNextDeclInContext D of
         None \<Rightarrow> True
       | Some Next \<Rightarrow> \<not> isaT T (getKind (info Next))
                       \<or> getBeginLoc_T T Next \<noteq> getBeginLoc_T T D))
   \<and> filter (isResponsibleForCreatingDeclaration T) (chain T D) = [last (chain T D)]
   \<and> (processDeclaratorAndDeclaration T D s = Inr (ok, s') \<longrightarrow>
        (\<exists>Rng. getDeclaratorRange (Arena s) (getTypeLoc (info D)) (getQualifiedNameStart D)
                  (getInitializerRange D) = Inr Rng
           \<and> map (\<lambda>n. Kind (Store s' n)) [NextFree s..<NextFree s']
               = (if isValid (getBegin Rng) then [SimpleDeclarator] else [])
                 @ (if isResponsibleForCreatingDeclaration T D then [SimpleDeclaration] else [])
           \<and> (isValid (getBegin Rng) \<longrightarrow>
                 Role (Store s' (NextFree s)) = SimpleDeclaration_declarator)
           \<and> Nodes s' =
               (if isResponsibleForCreatingDeclaration T D
                then (Nodes s)(DeclPtr (declPtr (info D)) \<mapsto> NextFree s' - 1)
                else Nodes s)
           \<and> (sorted_wrt (<) (map fst (Trees s)) \<longrightarrow>
                (\<exists>T3.
                   (if isValid (getBegin Rng)
                    then \<exists>R. getRange s Rng = Inr R
                           \<and> children (Store s' (NextFree s)) = map snd (pendingIn R (Trees s))
                           \<and> T3 = foldInto R (NextFree s) (Trees s)
                    else T3 = Trees s)
                 \<and> (if isResponsibleForCreatingDeclaration T D
                    then \<exists>R2. getDeclarationRange s D = Inr R2
                           \<and> children (Store s' (NextFree s' - 1)) = map snd (pendingIn R2 T3)
                           \<and> Trees s' = foldInto R2 (NextFree s' - 1) T3
                    else Trees s' = T3)))))"
proof (intro conjI impI)
  show "isResponsibleForCreatingDeclaration T D \<longleftrightarrow>
      (case getNextDeclInContext D of
         None \<Rightarrow> True
       | Some Next \<Rightarrow> \<not> isaT T (getKind (info Next))
                       \<or> getBeginLoc_T T Next \<noteq> getBeginLoc_T T D)"
    by (auto simp add: isResponsibleForCreatingDeclaration_def split: option.splits)
  show "filter (isResponsibleForCreatingDeclaration T) (chain T D) = [last (chain T D)]"
    by (rule chain_responsible)
next
  let ?resp = "isResponsibleForCreatingDeclaration T D"
  assume run: "processDeclaratorAndDeclaration T D s = Inr (ok, s')"
  then obtain Rng where
    g: "getDeclaratorRange (Arena s) (getTypeLoc (info D)) (getQualifiedNameStart D)
          (getInitializerRange D) = Inr Rng"
    and r1: "bind (if isValid (getBegin Rng) then
             (let (N, s1) = allocate SimpleDeclarator s in
              bind (getRange s1 Rng) (\<lambda>R.
              bind (foldNode R N None s1) (\<lambda>s2.
                markChild N SimpleDeclaration_declarator s2)))
           else Inr s) (\<lambda>s3.
     bind (if ?resp then
             (let (N2, s4) = allocate SimpleDeclaration s3 in
              bind (getDeclarationRange s4 D) (\<lambda>R2.
                foldNode R2 N2 (Some (DeclPtr (declPtr (info D)))) s4))
           else Inr s3) (\<lambda>s5.
       Inr (True, s5))) = Inr (ok, s')"
    unfolding processDeclaratorAndDeclaration_def Let_def by (rule bindE)
  from r1 obtain s3 where
    d1: "(if isValid (getBegin Rng) then
             (let (N, s1) = allocate SimpleDeclarator s in
              bind (getRange s1 Rng) (\<lambda>R.
              bind (foldNode R N None s1) (\<lambda>s2.
                markChild N SimpleDeclaration_declarator s2)))
           else Inr s) = Inr s3"
    and r2: "bind (if ?resp then
             (let (N2, s4) = allocate SimpleDeclaration s3 in
              bind (getDeclarationRange s4 D) (\<lambda>R2.
                foldNode R2 N2 (Some (DeclPtr (declPtr (info D)))) s4))
           else Inr s3) (\<lambda>s5.
       Inr (True, s5)) = Inr (ok, s')"
    by (rule bindE)
  from r2 obtain s5 where
    d2: "(if ?resp then
             (let (N2, s4) = allocate SimpleDeclaration s3 in
              bind (getDeclarationRange s4 D) (\<lambda>R2.
                foldNode R2 N2 (Some (DeclPtr (declPtr (info D)))) s4))
           else Inr s3) = Inr s5"
    and "Inr (True, s5) = (Inr (ok, s') :: error + bool \<times> TreeBuilder)"
    by (rule bindE)
  then have fin: "s5 = s'" by simp
  note D1 = declarator_step [OF d1]
  note D2 = declaration_step [OF d2 [unfolded fin]]
  have G: "grows s ((if isValid (getBegin Rng) then [SimpleDeclarator] else [])
                 @ (if ?resp then [SimpleDeclaration] else [])) s'"
    by (rule grows_trans [OF D1(1) D2(1)])
  have K: "map (\<lambda>n. Kind (Store s' n)) [NextFree s..<NextFree s']
               = (if isValid (getBegin Rng) then [SimpleDeclarator] else [])
                 @ (if ?resp then [SimpleDeclaration] else [])"
    by (rule grows_kinds [OF G])
  have R: "isValid (getBegin Rng) \<longrightarrow>
                 Role (Store s' (NextFree s)) = SimpleDeclaration_declarator"
  proof
    assume v: "isValid (getBegin Rng)"
    then have "NextFree s3 = Suc (NextFree s)" using grows_NextFree [OF D1(1)] by simp
    then show "Role (Store s' (NextFree s)) = SimpleDeclaration_declarator"
      using grows_Role [OF D2(1), of "NextFree s"] D1(3) [OF v] by simp
  qed
  have nf: "?resp \<longrightarrow> NextFree s' - 1 = NextFree s3"
    using grows_NextFree [OF D2(1)] by simp
  then have N: "Nodes s' =
               (if ?resp then (Nodes s)(DeclPtr (declPtr (info D)) \<mapsto> NextFree s' - 1)
                else Nodes s)"
    using D2(2) D1(2) by simp
  have B: "sorted_wrt (<) (map fst (Trees s)) \<longrightarrow>
                (\<exists>T3.
                   (if isValid (getBegin Rng)
                    then \<exists>R. getRange s Rng = Inr R
                           \<and> children (Store s' (NextFree s)) = map snd (pendingIn R (Trees s))
                           \<and> T3 = foldInto R (NextFree s) (Trees s)
                    else T3 = Trees s)
                 \<and> (if ?resp
                    then \<exists>R2. getDeclarationRange s D = Inr R2
                           \<and> children (Store s' (NextFree s' - 1)) = map snd (pendingIn R2 T3)
                           \<and> Trees s' = foldInto R2 (NextFree s' - 1) T3
                    else Trees s' = T3))"
  proof
    assume sorted: "sorted_wrt (<) (map fst (Trees s))"
    note B1 = declarator_step_built [OF d1 sorted]
    note B2 = declaration_step_built [OF d2 [unfolded fin] B1(1)]
    have fr: "Arena s3 = Arena s" "LocationToToken s3 = LocationToToken s"
      "DeclsWithoutSemicolons s3 = DeclsWithoutSemicolons s"
      using D1(1) by (simp_all add: grows_def)
    have gd: "getDeclarationRange s3 D = getDeclarationRange s D"
      using range_frame(4) [OF fr(1,2), of D] fr(3) by simp
    define T3 where "T3 = Trees s3"
    have P1: "if isValid (getBegin Rng)
              then \<exists>R. getRange s Rng = Inr R
                     \<and> children (Store s' (NextFree s)) = map snd (pendingIn R (Trees s))
                     \<and> T3 = foldInto R (NextFree s) (Trees s)
              else T3 = Trees s"
    proof (cases "isValid (getBegin Rng)")
      case False
      then show ?thesis using B1(2) T3_def by simp
    next
      case True
      from B1(3) [OF True] obtain R where gr: "getRange s Rng = Inr R"
        and t3: "Trees s3 = foldInto R (NextFree s) (Trees s)"
        and c3: "\<forall>n. children (Store s3 n)
                    = (if n = NextFree s then map snd (pendingIn R (Trees s))
                       else children (Store s n))"
        by blast
      have ne: "NextFree s \<noteq> NextFree s3"
        using True grows_NextFree [OF D1(1)] by simp
      have "children (Store s' (NextFree s)) = children (Store s3 (NextFree s))"
      proof (cases ?resp)
        case False
        then show ?thesis using B2(1) by simp
      next
        case True
        from B2(2) [OF True] ne show ?thesis by auto
      qed
      then have "children (Store s' (NextFree s)) = map snd (pendingIn R (Trees s))"
        using c3 by simp
      then show ?thesis using True gr t3 T3_def by simp
    qed
    have P2: "if ?resp
              then \<exists>R2. getDeclarationRange s D = Inr R2
                     \<and> children (Store s' (NextFree s' - 1)) = map snd (pendingIn R2 T3)
                     \<and> Trees s' = foldInto R2 (NextFree s' - 1) T3
              else Trees s' = T3"
    proof (cases ?resp)
      case False
      then show ?thesis using B2(1) T3_def by simp
    next
      case True
      from B2(2) [OF True] obtain R2 where "getDeclarationRange s3 D = Inr R2"
        and "Trees s' = foldInto R2 (NextFree s3) (Trees s3)"
        and "\<forall>n. children (Store s' n)
                    = (if n = NextFree s3 then map snd (pendingIn R2 (Trees s3))
                       else children (Store s3 n))"
        by blast
      then have "getDeclarationRange s D = Inr R2
          \<and> children (Store s' (NextFree s' - 1)) = map snd (pendingIn R2 T3)
          \<and> Trees s' = foldInto R2 (NextFree s' - 1) T3"
        using gd nf True T3_def by simp
      then show ?thesis using True by auto
    qed
    from P1 P2 show "\<exists>T3.
                   (if isValid (getBegin Rng)
                    then \<exists>R. getRange s Rng = Inr R
                           \<and> children (Store s' (NextFree s)) = map snd (pendingIn R (Trees s))
                           \<and> T3 = foldInto R (NextFree s) (Trees s)
                    else T3 = Trees s)
                 \<and> (if ?resp
                    then \<exists>R2. getDeclarationRange s D = Inr R2
                           \<and> children (Store s' (NextFree s' - 1)) = map snd (pendingIn R2 T3)
                           \<and> Trees s' = foldInto R2 (NextFree s' - 1) T3
                    else Trees s' = T3)"
      by (intro exI [of _ T3] conjI)
  qed
  show "\<exists>Rng. getDeclaratorRange (Arena s) (getTypeLoc (info D)) (getQualifiedNameStart D)
                  (getInitializerRange D) = Inr Rng
           \<and> map (\<lambda>n. Kind (Store s' n)) [NextFree s..<NextFree s']
               = (if isValid (getBegin Rng) then [SimpleDeclarator] else [])
                 @ (if ?resp then [SimpleDeclaration] else [])
           \<and> (isValid (getBegin Rng) \<longrightarrow>
                 Role (Store s' (NextFree s)) = SimpleDeclaration_declarator)
           \<and> Nodes s' =
               (if ?resp then (Nodes s)(DeclPtr (declPtr (info D)) \<mapsto> NextFree s' - 1)
                else Nodes s)
           \<and> (sorted_wrt (<) (map fst (Trees s)) \<longrightarrow>
                (\<exists>T3.
                   (if isValid (getBegin Rng)
                    then \<exists>R. getRange s Rng = Inr R
                           \<and> children (Store s' (NextFree s)) = map snd (pendingIn R (Trees s))
                           \<and> T3 = foldInto R (NextFree s) (Trees s)
                    else T3 = Trees s)
                 \<and> (if ?resp
                    then \<exists>R2. getDeclarationRange s D = Inr R2
                           \<and> children (Store s' (NextFree s' - 1)) = map snd (pendingIn R2 T3)
                           \<and> Trees s' = foldInto R2 (NextFree s' - 1) T3
                    else Trees s' = T3)))"
    using g K R N B by (intro exI [of _ Rng] conjI)
qed

lemmas eval_decl = processDeclaratorAndDeclaration_def getDeclaratorRange_def
  getQualifiedNameStart_def getInitializerRange_def isResponsibleForCreatingDeclaration_def
  isaT_def getBeginLoc_T_def isaDeclaratorDecl_def isaVarDecl_def isaTagDecl_def
  isaNamespaceDecl_def getDeclarationRange_def maybeAppendSemicolon_def
  withTrailingSemicolon_def ArrayRef_back_def tokenAt_def plain_info_def

theorem C5_declarator_chain_witness:
  "chain DeclaratorDecl_T var_a = [var_a, var_b]
   \<and> filter (isResponsibleForCreatingDeclaration DeclaratorDecl_T) [var_a, var_b] = [var_b]
   \<and> (\<exists>s1 s2.
        processDeclaratorAndDeclaration DeclaratorDecl_T var_a
          (projr (TreeBuilder_init two_vars_arena)) = Inr (True, s1)
      \<and> processDeclaratorAndDeclaration DeclaratorDecl_T var_b s1 = Inr (True, s2)
      \<and> map (\<lambda>n. Kind (Store s1 n)) [6..<NextFree s1] = [SimpleDeclarator]
      \<and> map (\<lambda>n. Kind (Store s2 n)) [NextFree s1..<NextFree s2]
          = [SimpleDeclarator, SimpleDeclaration]
      \<and> Role (Store s2 (NextFree s1)) = SimpleDeclaration_declarator
      \<and> Nodes s1 = Map.empty
      \<and> Nodes s2 = [DeclPtr 2 \<mapsto> 8]
      \<and> children (Store s1 6) = [1]
      \<and> Trees s1 = [(0, 0), (1, 6), (2, 2), (3, 3), (4, 4), (5, 5)]
      \<and> children (Store s2 7) = [3, 4]
      \<and> children (Store s2 8) = [0, 6, 2, 7, 5]
      \<and> Trees s2 = [(0, 8)])"
proof -
  let ?s = "projr (TreeBuilder_init two_vars_arena)"
  have ch: "chain DeclaratorDecl_T var_a = [var_a, var_b]"
    by (simp add: var_a_def var_b_def isaT_def isaDeclaratorDecl_def getBeginLoc_T_def
          plain_info_def)
  have la: "last [var_a, var_b] = var_b" by simp
  have "\<exists>s1. processDeclaratorAndDeclaration DeclaratorDecl_T var_a ?s = Inr (True, s1)
      \<and> NextFree s1 = 7 \<and> Arena s1 = two_vars_arena
      \<and> LocationToToken s1 = LocationToToken ?s \<and> DeclsWithoutSemicolons s1 = {}
      \<and> (\<exists>s2. processDeclaratorAndDeclaration DeclaratorDecl_T var_b s1 = Inr (True, s2)
            \<and> NextFree s2 = 9)"
    by (simp add: two_vars_arena_def var_a_def var_b_def eval_init eval_range eval_walk
          eval_id eval_decl upt_rec)
  then obtain s1 s2 where
    W1: "processDeclaratorAndDeclaration DeclaratorDecl_T var_a ?s = Inr (True, s1)"
    and W2: "processDeclaratorAndDeclaration DeclaratorDecl_T var_b s1 = Inr (True, s2)"
    and nf: "NextFree s1 = 7" "NextFree s2 = 9" and ar: "Arena s1 = two_vars_arena"
    and fr: "LocationToToken s1 = LocationToToken ?s" "DeclsWithoutSemicolons s1 = {}"
    by blast
  have ra: "\<not> isResponsibleForCreatingDeclaration DeclaratorDecl_T var_a"
    "isResponsibleForCreatingDeclaration DeclaratorDecl_T var_b"
    by (simp_all add: var_a_def var_b_def eval_decl)
  have ga: "getDeclaratorRange (Arena ?s) (getTypeLoc (info var_a)) (getQualifiedNameStart var_a)
                  (getInitializerRange var_a) = Inr (2, 2)"
    "getDeclaratorRange (Arena s1) (getTypeLoc (info var_b)) (getQualifiedNameStart var_b)
                  (getInitializerRange var_b) = Inr (4, 5)"
    "NextFree ?s = 6" "Nodes ?s = Map.empty"
    "declPtr (info var_a) = 1" "declPtr (info var_b) = 2"
    by (simp_all add: ar two_vars_arena_def var_a_def var_b_def eval_init eval_range eval_decl)
  have T0: "Trees ?s = [(0, 0), (1, 1), (2, 2), (3, 3), (4, 4), (5, 5)]"
    by (simp add: two_vars_arena_def eval_init upt_rec)
  have A0: "Arena ?s = two_vars_arena" "DeclsWithoutSemicolons ?s = {}"
    by (simp_all add: two_vars_arena_def eval_init)
  have gr: "getRange ?s (2, 2) = Inr (1, 2)" "getRange ?s (4, 5) = Inr (3, 5)"
    "getDeclarationRange ?s var_b = Inr (0, 6)"
    by (simp_all add: two_vars_arena_def var_b_def eval_init eval_range eval_decl bind_def)
  have gr1: "getRange s1 (4, 5) = Inr (3, 5)" "getDeclarationRange s1 var_b = Inr (0, 6)"
    using range_frame(2,4) [of s1 ?s] ar fr A0 gr by simp_all
  note A = C5_declarator_chain [of DeclaratorDecl_T var_a ?s True s1]
  note B = C5_declarator_chain [of DeclaratorDecl_T var_b s1 True s2]
  note A2 = A [THEN conjunct2, THEN conjunct1]
  note A3 = A [THEN conjunct2, THEN conjunct2, rule_format, OF W1]
  note B3 = B [THEN conjunct2, THEN conjunct2, rule_format, OF W2]
  have 1: "filter (isResponsibleForCreatingDeclaration DeclaratorDecl_T) [var_a, var_b] = [var_b]"
    using A2 unfolding ch la .
  have 2: "map (\<lambda>n. Kind (Store s1 n)) [6..<NextFree s1] = [SimpleDeclarator]
      \<and> Nodes s1 = Map.empty
      \<and> children (Store s1 6) = [1]
      \<and> Trees s1 = [(0, 0), (1, 6), (2, 2), (3, 3), (4, 4), (5, 5)]"
    using A3 ga ra gr T0
    by (auto simp add: isValid_def getBegin_def pendingIn_def foldInto_def)
  then have T1: "Trees s1 = [(0, 0), (1, 6), (2, 2), (3, 3), (4, 4), (5, 5)]" by simp
  have 3: "map (\<lambda>n. Kind (Store s2 n)) [NextFree s1..<NextFree s2]
          = [SimpleDeclarator, SimpleDeclaration]
      \<and> Role (Store s2 (NextFree s1)) = SimpleDeclaration_declarator
      \<and> Nodes s2 = [DeclPtr 2 \<mapsto> 8]
      \<and> children (Store s2 7) = [3, 4]
      \<and> children (Store s2 8) = [0, 6, 2, 7, 5]
      \<and> Trees s2 = [(0, 8)]"
    using B3 ga ra 2 nf gr1 T1
    by (auto simp add: isValid_def getBegin_def pendingIn_def foldInto_def)
  show ?thesis
    using ch 1 W1 W2 2 3
    by (intro conjI exI [of _ s1] exI [of _ s2]) simp_all
qed

subsection \<open>The forest partitions the tokens\<close>

declare leaves.simps [simp del]
















lemma forest_inv_Nodes [simp]: "forest_inv (s\<lparr>Nodes := m\<rparr>) = forest_inv s"
  by (simp add: forest_inv_def)

lemma forest_inv_NNSNodes [simp]: "forest_inv (s\<lparr>NNSNodes := m\<rparr>) = forest_inv s"
  by (simp add: forest_inv_def)

lemma forest_inv_notice [simp]: "forest_inv (noticeDeclWithoutSemicolon D s) = forest_inv s"
  by (simp add: forest_inv_def noticeDeclWithoutSemicolon_def)



















end
